theory Spec2Isabelle
  imports Main
begin

section \<open>Playlist items and their sources\<close>

text \<open>
  The playlist controller of \<^verbatim>\<open>playlist.ts\<close>. Numbers that count (playlist positions,
  ports, node handles) are natural numbers; durations in milliseconds are integers, and an
  optional field is an \<open>option\<close>.
\<close>

datatype SrtMode = Caller | Listener

datatype PlaylistSource =
    LocalTsFile string
  | LocalMp4File string
  | Srt SrtMode string nat
  | Rtmp nat "string option" "string option"
  | Image string string
  | Rtp string
  | Whip

record PlaylistItem =
  item_begin :: "int option"
  item_duration :: "int option"
  item_source :: PlaylistSource

datatype AVKind = Video | AV

fun isLive :: "PlaylistSource \<Rightarrow> bool" where
  "isLive (Image _ _) = False"
| "isLive (LocalMp4File _) = False"
| "isLive (LocalTsFile _) = False"
| "isLive (Rtmp _ _ _) = True"
| "isLive (Rtp _) = True"
| "isLive (Srt _ _ _) = True"
| "isLive Whip = True"

fun nodeKind :: "PlaylistSource \<Rightarrow> AVKind" where
  "nodeKind (Image _ _) = Video"
| "nodeKind _ = AV"

text \<open>JavaScript truthiness of an optional number and of an optional string.\<close>

fun truthyNumber :: "int option \<Rightarrow> bool" where
  "truthyNumber None = False"
| "truthyNumber (Some d) = (d \<noteq> 0)"

fun truthyString :: "string option \<Rightarrow> bool" where
  "truthyString None = False"
| "truthyString (Some x) = (x \<noteq> [])"

text \<open>\<^verbatim>\<open>Number.prototype.toString\<close> on a non-negative integer: its decimal digits.\<close>

definition digitChar :: "nat \<Rightarrow> char" where
  "digitChar d = ''0123456789'' ! d"

function toString :: "nat \<Rightarrow> string" where
  "toString n = (if n < 10 then [digitChar n] else toString (n div 10) @ [digitChar (n mod 10)])"
  by pat_completeness auto
termination
  by (relation "measure id") auto

declare toString.simps [simp del]

section \<open>Stream keys and stream metadata\<close>

record StreamKey =
  programNumber :: nat
  renditionName :: string
  streamId :: nat
  sourceName :: string

datatype MediaType = AudioMedia | VideoMedia | OtherMedia

record StreamMetadata =
  streamKey :: StreamKey
  mediaType :: MediaType

text \<open>
  Modelled from the spec: \<^verbatim>\<open>audioStreamKeys\<close> and \<^verbatim>\<open>videoStreamKeys\<close> are functions of the
  engine's SDK, imported by \<^verbatim>\<open>playlist.ts\<close>; they "return the keys of streams of that media
  type", in the order of the streams.
\<close>

definition audioStreamKeys :: "StreamMetadata list \<Rightarrow> StreamKey list" where
  "audioStreamKeys streams = map streamKey (filter (\<lambda>m. mediaType m = AudioMedia) streams)"

definition videoStreamKeys :: "StreamMetadata list \<Rightarrow> StreamKey list" where
  "videoStreamKeys streams = map streamKey (filter (\<lambda>m. mediaType m = VideoMedia) streams)"

text \<open>
  The closure \<^verbatim>\<open>streamKeyFilter\<close> of \<^verbatim>\<open>createNode\<close>: \<^verbatim>\<open>(k) => true\<close>, replaced for an RTMP
  item by a closure over the local \<^verbatim>\<open>sourceName\<close>.
\<close>

datatype KeyFilter = AcceptAll | RtmpFilter "string option"

fun streamKeyFilter :: "KeyFilter \<Rightarrow> StreamKey \<Rightarrow> bool" where
  "streamKeyFilter AcceptAll k = True"
| "streamKeyFilter (RtmpFilter sn) k =
     (if truthyString sn then Some (sourceName k) = sn else True)"

type_synonym PinToKey = "(string \<times> StreamKey list) list"

section \<open>Closures, slots and the controller state\<close>

text \<open>
  \<^verbatim>\<open>closeNode\<close> is a closure over \<^verbatim>\<open>isStandaloneNode\<close>, \<^verbatim>\<open>nodeId\<close> and \<^verbatim>\<open>node\<close>; an engine
  node is named by the number of the request that creates it.
\<close>

record CloseNode =
  cn_isStandaloneNode :: bool
  cn_nodeId :: string
  cn_node :: nat

datatype NodeRef = InputNode nat | SilenceNode

text \<open>
  The two \<^verbatim>\<open>sourceSelector\<close> closures of \<^verbatim>\<open>subscribeToNode\<close>: the first closes over
  \<^verbatim>\<open>sourceIndex\<close>, \<^verbatim>\<open>streamKeyFilter\<close>, \<^verbatim>\<open>kind\<close> and the object \<^verbatim>\<open>state\<close> (by its address in
  the store), the second over \<^verbatim>\<open>sourceIndex\<close>.
\<close>

datatype Selector = SelectStreams nat KeyFilter AVKind nat | SelectSilence nat

record Sub =
  sub_source :: NodeRef
  sub_sourceSelector :: Selector

record PlayingItem =
  pi_item :: PlaylistItem
  pi_sub :: "Sub option"
  pi_silenceSub :: "Sub option"
  pi_ready :: bool
  pi_index :: nat
  pi_duration :: "int option"
  pi_closeNode :: CloseNode

datatype SlotName = SlotCurrent | SlotNext

datatype Proto = ProtoSrt | ProtoRtmp

text \<open>
  The disconnect callbacks that \<^verbatim>\<open>createNode\<close> registers on a shared listener, as closures
  over \<^verbatim>\<open>nodeId\<close> (and \<^verbatim>\<open>sourceName\<close> for RTMP).
\<close>

datatype DisconnectCb = SrtDisconnect string | RtmpDisconnect string "string option"

record ListenerNode =
  ln_node :: "nat option"
  ln_onDisconnect :: "string \<rightharpoonup> DisconnectCb"

datatype Error = NoListener Proto nat | EngineRejected nat | TypeErrorNextUndefined

datatype DurationPromise = DurationUndefined | DurationMp4 nat

text \<open>
  A request to the engine for an input node (\<^verbatim>\<open>this.norsk.input.*\<close>): the \<^verbatim>\<open>id\<close> of the
  settings, the item, and the arguments of the \<^verbatim>\<open>subscribeToNode\<close> closure that
  \<^verbatim>\<open>onCreate\<close> calls.
\<close>

record Request =
  req_id :: string
  req_item :: PlaylistItem
  req_subscribeIndex :: nat
  req_subscribeSlot :: SlotName

text \<open>
  What an \<^verbatim>\<open>await this.createNode(...)\<close> of \<^verbatim>\<open>update\<close> waits for: an engine request, or a
  promise that \<^verbatim>\<open>createNode\<close> has already resolved or rejected (the shared listeners).
\<close>

datatype Awaited = OnRequest nat | Resolved CloseNode DurationPromise | Rejected Error

text \<open>
  A suspended invocation of \<^verbatim>\<open>update\<close>, with the local variables it needs when it resumes:
  which of its two \<^verbatim>\<open>createNode\<close> calls it is in, \<^verbatim>\<open>currentSource\<close>, and \<^verbatim>\<open>item\<close> or
  \<^verbatim>\<open>next\<close>.
\<close>

datatype Task =
    AwaitCreate SlotName nat PlaylistItem Awaited
  | AwaitDuration SlotName nat CloseNode DurationPromise

datatype TimerAction =
    DurationTimer nat
  | CloseTimer "CloseNode option"
  | NodeCloseTimer nat
  | SwitchTimer string

record Timer =
  timer_id :: nat
  timer_delay :: int
  timer_action :: TimerAction

text \<open>
  \<^verbatim>\<open>precreateListeners\<close> suspended in \<^verbatim>\<open>await ListenerNode.create(...)\<close>: the protocol and
  port, the engine node being made, the \<^verbatim>\<open>id\<close> handed to the engine, and the items the loop
  has not visited yet.
\<close>

record PrecreateTask =
  pc_proto :: Proto
  pc_port :: nat
  pc_node :: nat
  pc_id :: string
  pc_rest :: "PlaylistItem list"

record State =
  playlist :: "PlaylistItem list"
  transitionDuration :: int
  sourceIndex :: nat
  playing_prev :: "nat option"
  playing_current :: "nat option"
  playing_next :: "nat option"
  playing :: "nat option"
  timeouts :: "nat list"
  srtListeners :: "nat \<rightharpoonup> ListenerNode"
  rtmpListeners :: "nat \<rightharpoonup> ListenerNode"
  store :: "nat \<rightharpoonup> PlayingItem"
  nextAddr :: nat
  timers :: "Timer list"
  nextTimer :: nat
  requests :: "nat \<rightharpoonup> Request"
  nodes :: "nat \<rightharpoonup> Request"
  rejectedRequests :: "nat list"
  nextNode :: nat
  mp4Info :: "nat \<rightharpoonup> int option"
  tasks :: "Task list"
  precreate :: "PrecreateTask option"
  exited :: bool
  rejections :: "Error list"
  switcherSubs :: "Sub list"
  switchCalls :: "string list"
  closeCalls :: "nat list"

section \<open>Timers\<close>

definition setTimeout :: "TimerAction \<Rightarrow> int \<Rightarrow> State \<Rightarrow> State" where
  "setTimeout act delay s =
     s\<lparr>timers := timers s @ [\<lparr>timer_id = nextTimer s, timer_delay = delay, timer_action = act\<rparr>],
       nextTimer := Suc (nextTimer s)\<rparr>"

definition clearTimeout :: "nat \<Rightarrow> State \<Rightarrow> State" where
  "clearTimeout t s = s\<lparr>timers := filter (\<lambda>x. timer_id x \<noteq> t) (timers s)\<rparr>"

section \<open>The switcher binding\<close>

definition lookupItem :: "State \<Rightarrow> nat option \<Rightarrow> PlayingItem option" where
  "lookupItem s slot = (case slot of None \<Rightarrow> None | Some a \<Rightarrow> store s a)"

definition subs :: "PlayingItem option \<Rightarrow> Sub list" where
  "subs item =
     (case item of
        None \<Rightarrow> []
      | Some p \<Rightarrow> (case pi_sub p of None \<Rightarrow> [] | Some x \<Rightarrow> [x])
                @ (case pi_silenceSub p of None \<Rightarrow> [] | Some x \<Rightarrow> [x]))"

definition refreshSubs :: "State \<Rightarrow> State" where
  "refreshSubs s =
     s\<lparr>switcherSubs :=
         concat (map (\<lambda>slot. subs (lookupItem s slot))
                     [playing_prev s, playing_current s, playing_next s])\<rparr>"

definition activateSource :: "PlayingItem \<Rightarrow> State \<Rightarrow> State" where
  "activateSource item s =
     setTimeout (SwitchTimer (toString (pi_index item))) 10 (s\<lparr>playing := Some (pi_index item)\<rparr>)"

definition refreshActive :: "State \<Rightarrow> State" where
  "refreshActive s =
     (case lookupItem s (playing_current s) of
        Some c \<Rightarrow>
          if playing s \<noteq> Some (pi_index c) \<and> pi_ready c then activateSource c s
          else (case lookupItem s (playing_prev s) of
                  Some p \<Rightarrow> if playing s = None \<and> pi_ready p then activateSource p s else s
                | None \<Rightarrow> s)
      | None \<Rightarrow>
          (case lookupItem s (playing_prev s) of
             Some p \<Rightarrow> if playing s = None \<and> pi_ready p then activateSource p s else s
           | None \<Rightarrow> s))"

definition onClose :: "nat \<Rightarrow> State \<Rightarrow> State" where
  "onClose node s =
     (case lookupItem s (playing_prev s) of
        None \<Rightarrow> s
      | Some p \<Rightarrow>
          (case pi_sub p of
             None \<Rightarrow> s
           | Some x \<Rightarrow>
               if sub_source x = InputNode node then refreshSubs (s\<lparr>playing_prev := None\<rparr>)
               else s))"

section \<open>subscribeToNode and its stream selectors\<close>

definition setReady :: "nat \<Rightarrow> bool \<Rightarrow> State \<Rightarrow> State" where
  "setReady a r s =
     (case store s a of
        None \<Rightarrow> s
      | Some p \<Rightarrow> s\<lparr>store := (store s)(a \<mapsto> p\<lparr>pi_ready := r\<rparr>)\<rparr>)"

definition selectStreams ::
  "nat \<Rightarrow> KeyFilter \<Rightarrow> AVKind \<Rightarrow> nat \<Rightarrow> StreamMetadata list \<Rightarrow> State \<Rightarrow> PinToKey option \<times> State" where
  "selectStreams idx f kind st streams s =
     (let pin = toString idx;
          audio = take 1 (filter (streamKeyFilter f) (audioStreamKeys streams));
          video = take 1 (filter (streamKeyFilter f) (videoStreamKeys streams));
          keys = audio @ video;
          res = (if length keys \<ge> 1 then Some [(pin, keys)] else None);
          ready = ((kind = Video \<or> length audio \<ge> 1) \<and> length video \<ge> 1)
      in (res, refreshActive (setReady st ready s)))"

definition selectSilence :: "nat \<Rightarrow> StreamMetadata list \<Rightarrow> PinToKey option" where
  "selectSilence idx streams =
     (let pin = toString idx;
          audio = audioStreamKeys streams
      in if length audio = 1 then Some [(pin, audio)] else None)"

fun sourceSelector :: "Selector \<Rightarrow> StreamMetadata list \<Rightarrow> State \<Rightarrow> PinToKey option \<times> State" where
  "sourceSelector (SelectStreams idx f kind st) streams s = selectStreams idx f kind st streams s"
| "sourceSelector (SelectSilence idx) streams s = (selectSilence idx streams, s)"

record InitialCreateInfo =
  ici_node :: nat
  ici_nodeId :: string
  ici_kind :: AVKind
  ici_item :: PlaylistItem
  ici_streamKeyFilter :: KeyFilter
  ici_closeNode :: CloseNode

definition setSlot :: "SlotName \<Rightarrow> nat \<Rightarrow> State \<Rightarrow> State" where
  "setSlot nodeType a s =
     (case nodeType of
        SlotCurrent \<Rightarrow> s\<lparr>playing_current := Some a\<rparr>
      | SlotNext \<Rightarrow> s\<lparr>playing_next := Some a\<rparr>)"

definition subscribeToNode :: "nat \<Rightarrow> SlotName \<Rightarrow> InitialCreateInfo \<Rightarrow> State \<Rightarrow> State" where
  "subscribeToNode idx nodeType info s =
     (let a = nextAddr s;
          state = \<lparr>pi_item = ici_item info,
                   pi_sub = Some \<lparr>sub_source = InputNode (ici_node info),
                                  sub_sourceSelector =
                                    SelectStreams idx (ici_streamKeyFilter info) (ici_kind info) a\<rparr>,
                   pi_silenceSub =
                     (if ici_kind info = Video
                      then Some \<lparr>sub_source = SilenceNode, sub_sourceSelector = SelectSilence idx\<rparr>
                      else None),
                   pi_ready = False,
                   pi_index = idx,
                   pi_duration = None,
                   pi_closeNode = ici_closeNode info\<rparr>
      in refreshSubs
           (setSlot nodeType a (s\<lparr>store := (store s)(a \<mapsto> state), nextAddr := Suc a\<rparr>)))"

section \<open>The source factory\<close>

text \<open>
  \<^verbatim>\<open>closeNode\<close>: for a standalone node, \<^verbatim>\<open>node.close()\<close> a second later; nothing otherwise.
\<close>

definition closeNode :: "CloseNode \<Rightarrow> State \<Rightarrow> State" where
  "closeNode cn s =
     (if cn_isStandaloneNode cn then setTimeout (NodeCloseTimer (cn_node cn)) 1000 s else s)"

definition nodeIdOf :: "nat \<Rightarrow> string" where
  "nodeIdOf currentSource = ''input-'' @ toString currentSource"

text \<open>
  The standalone sources: \<^verbatim>\<open>await this.norsk.input.*({..., id: nodeId, onCreate, ...})\<close>.
  The call hands the request to the engine and \<^verbatim>\<open>createNode\<close> is suspended in it.
\<close>

definition requestNode :: "PlaylistItem \<Rightarrow> nat \<Rightarrow> nat \<Rightarrow> SlotName \<Rightarrow> State \<Rightarrow> Awaited \<times> State" where
  "requestNode item currentSource subIdx subSlot s =
     (let r = nextNode s
      in (OnRequest r,
          s\<lparr>requests := (requests s)(r \<mapsto> \<lparr>req_id = nodeIdOf currentSource, req_item = item,
                                              req_subscribeIndex = subIdx,
                                              req_subscribeSlot = subSlot\<rparr>),
            nextNode := Suc r\<rparr>))"

definition listenerOf :: "Proto \<Rightarrow> nat \<Rightarrow> State \<Rightarrow> ListenerNode option" where
  "listenerOf proto port s =
     (case proto of ProtoSrt \<Rightarrow> srtListeners s port | ProtoRtmp \<Rightarrow> rtmpListeners s port)"

definition setListener :: "Proto \<Rightarrow> nat \<Rightarrow> ListenerNode \<Rightarrow> State \<Rightarrow> State" where
  "setListener proto port l s =
     (case proto of
        ProtoSrt \<Rightarrow> s\<lparr>srtListeners := (srtListeners s)(port \<mapsto> l)\<rparr>
      | ProtoRtmp \<Rightarrow> s\<lparr>rtmpListeners := (rtmpListeners s)(port \<mapsto> l)\<rparr>)"

text \<open>\<^verbatim>\<open>listener.onDisconnect.set(nodeId, cb)\<close> and \<^verbatim>\<open>listener?.onDisconnect.delete(nodeId)\<close>.\<close>

definition attach :: "Proto \<Rightarrow> nat \<Rightarrow> string \<Rightarrow> DisconnectCb \<Rightarrow> State \<Rightarrow> State" where
  "attach proto port nodeId cb s =
     (case listenerOf proto port s of
        None \<Rightarrow> s
      | Some l \<Rightarrow> setListener proto port (l\<lparr>ln_onDisconnect := (ln_onDisconnect l)(nodeId \<mapsto> cb)\<rparr>) s)"

definition detach :: "Proto \<Rightarrow> nat \<Rightarrow> string \<Rightarrow> State \<Rightarrow> State" where
  "detach proto port nodeId s =
     (case listenerOf proto port s of
        None \<Rightarrow> s
      | Some l \<Rightarrow> setListener proto port (l\<lparr>ln_onDisconnect := (ln_onDisconnect l)(nodeId := None)\<rparr>) s)"

text \<open>The RTMP item's \<^verbatim>\<open>sourceName\<close>: \<^verbatim>\<open>app/stream\<close> when both are truthy, else undefined.\<close>

definition rtmpSourceName :: "string option \<Rightarrow> string option \<Rightarrow> string option" where
  "rtmpSourceName app stream =
     (case (app, stream) of
        (Some a, Some b) \<Rightarrow> if a \<noteq> [] \<and> b \<noteq> [] then Some (a @ ''/'' @ b) else None
      | _ \<Rightarrow> None)"

text \<open>
  A shared listener: look the node up, throw when there is none, register the disconnect
  callback under \<^verbatim>\<open>nodeId\<close>, and call \<^verbatim>\<open>subscribeNode\<close> at once.
\<close>

definition useListener ::
  "Proto \<Rightarrow> nat \<Rightarrow> DisconnectCb \<Rightarrow> KeyFilter \<Rightarrow> PlaylistItem \<Rightarrow> string \<Rightarrow> nat \<Rightarrow> SlotName
     \<Rightarrow> State \<Rightarrow> Awaited \<times> State" where
  "useListener proto port cb f item nodeId subIdx subSlot s =
     (case listenerOf proto port s of
        None \<Rightarrow> (Rejected (NoListener proto port), s)
      | Some listener \<Rightarrow>
          (case ln_node listener of
             None \<Rightarrow> (Rejected (NoListener proto port), s)
           | Some node \<Rightarrow>
               (let cn = \<lparr>cn_isStandaloneNode = False, cn_nodeId = nodeId, cn_node = node\<rparr>;
                    s1 = attach proto port nodeId cb s;
                    s2 = subscribeToNode subIdx subSlot
                           \<lparr>ici_node = node, ici_nodeId = nodeId,
                            ici_kind = nodeKind (item_source item), ici_item = item,
                            ici_streamKeyFilter = f, ici_closeNode = cn\<rparr> s1
                in (Resolved cn DurationUndefined, s2))))"

text \<open>
  \<^verbatim>\<open>createNode(item, currentSource, subscribeNode)\<close> up to its first suspension; the closure
  \<^verbatim>\<open>subscribeNode = this.subscribeToNode(subIdx, subSlot)\<close> is given by its two arguments.
\<close>

definition createNode :: "PlaylistItem \<Rightarrow> nat \<Rightarrow> nat \<Rightarrow> SlotName \<Rightarrow> State \<Rightarrow> Awaited \<times> State" where
  "createNode item currentSource subIdx subSlot s =
     (let nodeId = nodeIdOf currentSource
      in case item_source item of
           Srt mode ip port \<Rightarrow>
             if mode = Listener
             then useListener ProtoSrt port (SrtDisconnect nodeId) AcceptAll item nodeId subIdx subSlot s
             else requestNode item currentSource subIdx subSlot s
         | Rtmp port app stream \<Rightarrow>
             (let sn = rtmpSourceName app stream
              in useListener ProtoRtmp port (RtmpDisconnect nodeId sn) (RtmpFilter sn) item nodeId
                   subIdx subSlot s)
         | _ \<Rightarrow> requestNode item currentSource subIdx subSlot s)"

definition closeNodeOf :: "nat \<Rightarrow> Request \<Rightarrow> CloseNode" where
  "closeNodeOf r req = \<lparr>cn_isStandaloneNode = True, cn_nodeId = req_id req, cn_node = r\<rparr>"

definition durationOf :: "nat \<Rightarrow> Request \<Rightarrow> DurationPromise" where
  "durationOf r req =
     (case item_source (req_item req) of
        LocalMp4File _ \<Rightarrow> DurationMp4 r
      | _ \<Rightarrow> DurationUndefined)"

text \<open>
  The engine answers request \<open>r\<close>: it creates the node and calls \<^verbatim>\<open>onCreate(node)\<close>, which
  calls \<^verbatim>\<open>subscribeNode\<close>; or it rejects the request.
\<close>

definition engineCreated :: "nat \<Rightarrow> State \<Rightarrow> State" where
  "engineCreated r s =
     (case requests s r of
        None \<Rightarrow> s
      | Some req \<Rightarrow>
          subscribeToNode (req_subscribeIndex req) (req_subscribeSlot req)
            \<lparr>ici_node = r, ici_nodeId = req_id req,
             ici_kind = nodeKind (item_source (req_item req)), ici_item = req_item req,
             ici_streamKeyFilter = AcceptAll, ici_closeNode = closeNodeOf r req\<rparr>
            (s\<lparr>requests := (requests s)(r := None), nodes := (nodes s)(r \<mapsto> req)\<rparr>))"

definition engineFailed :: "nat \<Rightarrow> State \<Rightarrow> State" where
  "engineFailed r s =
     (case requests s r of
        None \<Rightarrow> s
      | Some req \<Rightarrow>
          s\<lparr>requests := (requests s)(r := None), rejectedRequests := r # rejectedRequests s\<rparr>)"

section \<open>update\<close>

definition reject :: "Error \<Rightarrow> State \<Rightarrow> State" where
  "reject e s = s\<lparr>rejections := rejections s @ [e]\<rparr>"

definition suspend :: "Task \<Rightarrow> State \<Rightarrow> State" where
  "suspend t s = s\<lparr>tasks := tasks s @ [t]\<rparr>"

text \<open>
  The loop at the top of \<^verbatim>\<open>update\<close>: it runs over the array that \<^verbatim>\<open>this.timeouts\<close> held
  when the loop began, and each round clears one timer and assigns the empty array.
\<close>

fun clearTimeouts :: "nat list \<Rightarrow> State \<Rightarrow> State" where
  "clearTimeouts [] s = s"
| "clearTimeouts (t # ts) s = clearTimeouts ts ((clearTimeout t s)\<lparr>timeouts := []\<rparr>)"

text \<open>
  \<^verbatim>\<open>if (currentDuration) { const timeout = setTimeout(..., currentDuration -
  this.transitionDuration); this.timeouts.push(timeout) }\<close>
\<close>

definition scheduleDuration :: "nat \<Rightarrow> State \<Rightarrow> State" where
  "scheduleDuration currentSource s =
     (case lookupItem s (playing_current s) of
        None \<Rightarrow> s
      | Some c \<Rightarrow>
          (case pi_duration c of
             None \<Rightarrow> s
           | Some currentDuration \<Rightarrow>
               if currentDuration \<noteq> 0
               then (let timeout = nextTimer s;
                         s1 = setTimeout (DurationTimer currentSource)
                                (currentDuration - transitionDuration s) s
                     in s1\<lparr>timeouts := timeouts s1 @ [timeout]\<rparr>)
               else s))"

text \<open>
  \<^verbatim>\<open>let next = this.playlist[currentSource + 1]; if (next && isLive(next.source)) { ...
  await this.createNode(next, currentSource, this.subscribeToNode(currentSource+1, 'next'))\<close>
\<close>

definition prewarm :: "nat \<Rightarrow> State \<Rightarrow> State" where
  "prewarm currentSource s =
     (if currentSource + 1 < length (playlist s)
      then (let nxt = playlist s ! (currentSource + 1)
            in if isLive (item_source nxt)
               then (case createNode nxt currentSource (currentSource + 1) SlotNext s of
                       (aw, s1) \<Rightarrow> suspend (AwaitCreate SlotNext currentSource nxt aw) s1)
               else s)
      else s)"

definition update_tail :: "nat \<Rightarrow> State \<Rightarrow> State" where
  "update_tail currentSource s = prewarm currentSource (scheduleDuration currentSource s)"

definition writeBack :: "nat option \<Rightarrow> int option \<Rightarrow> CloseNode \<Rightarrow> State \<Rightarrow> State" where
  "writeBack slot d cn s =
     (case slot of
        None \<Rightarrow> s
      | Some a \<Rightarrow>
          (case store s a of
             None \<Rightarrow> s
           | Some p \<Rightarrow> s\<lparr>store := (store s)(a \<mapsto> p\<lparr>pi_duration := d, pi_closeNode := cn\<rparr>)\<rparr>))"

text \<open>After \<^verbatim>\<open>duration\<close> is known: write it and \<^verbatim>\<open>closeNode\<close> to the slot, and go on.\<close>

fun afterDuration :: "SlotName \<Rightarrow> nat \<Rightarrow> CloseNode \<Rightarrow> int option \<Rightarrow> State \<Rightarrow> State" where
  "afterDuration SlotCurrent c cn d s = update_tail c (writeBack (playing_current s) d cn s)"
| "afterDuration SlotNext c cn d s =
     (case playing_next s of
        None \<Rightarrow> reject TypeErrorNextUndefined s
      | Some a \<Rightarrow> writeBack (Some a) d cn s)"

text \<open>\<^verbatim>\<open>let duration = item.duration || (await createInfo.duration)\<close>\<close>

definition afterCreate ::
  "SlotName \<Rightarrow> nat \<Rightarrow> PlaylistItem \<Rightarrow> CloseNode \<Rightarrow> DurationPromise \<Rightarrow> State \<Rightarrow> State" where
  "afterCreate slot c item cn dur s =
     (if truthyNumber (item_duration item) then afterDuration slot c cn (item_duration item) s
      else suspend (AwaitDuration slot c cn dur) s)"

datatype AwaitResult = NotYet | Failed Error | Done CloseNode DurationPromise

definition awaitResult :: "Awaited \<Rightarrow> State \<Rightarrow> AwaitResult" where
  "awaitResult aw s =
     (case aw of
        OnRequest r \<Rightarrow>
          (case nodes s r of
             Some req \<Rightarrow> Done (closeNodeOf r req) (durationOf r req)
           | None \<Rightarrow> if r \<in> set (rejectedRequests s) then Failed (EngineRejected r) else NotYet)
      | Resolved cn dur \<Rightarrow> Done cn dur
      | Rejected e \<Rightarrow> Failed e)"

text \<open>
  A suspended \<^verbatim>\<open>update\<close> resumes when what it awaits has settled; \<open>None\<close> when it has not.
  A rejection ends the invocation: \<^verbatim>\<open>update\<close>'s own promise is rejected with the error.
\<close>

fun resumeTask :: "Task \<Rightarrow> State \<Rightarrow> State option" where
  "resumeTask (AwaitCreate slot c item aw) s =
     (case awaitResult aw s of
        NotYet \<Rightarrow> None
      | Failed e \<Rightarrow> Some (reject e s)
      | Done cn dur \<Rightarrow> Some (afterCreate slot c item cn dur s))"
| "resumeTask (AwaitDuration slot c cn dur) s =
     (case dur of
        DurationUndefined \<Rightarrow> Some (afterDuration slot c cn None s)
      | DurationMp4 r \<Rightarrow>
          (case mp4Info s r of
             None \<Rightarrow> None
           | Some d \<Rightarrow> Some (afterDuration slot c cn d s)))"

text \<open>
  \<^verbatim>\<open>update()\<close> from its call to its first suspension (or to its end, or to
  \<^verbatim>\<open>process.exit\<close>).
\<close>

definition update :: "State \<Rightarrow> State" where
  "update s =
     (let s1 = clearTimeouts (timeouts s) s;
          currentSource = sourceIndex s1;
          s2 = s1\<lparr>sourceIndex := Suc currentSource\<rparr>
      in if currentSource \<ge> length (playlist s2) then s2\<lparr>exited := True\<rparr>
         else (let item = playlist s2 ! currentSource;
                   s3 = s2\<lparr>playing_prev := playing_current s2\<rparr>
               in case playing_next s3 of
                    Some n \<Rightarrow>
                      update_tail currentSource
                        (refreshActive (s3\<lparr>playing_current := Some n, playing_next := None\<rparr>))
                  | None \<Rightarrow>
                      (case createNode item currentSource currentSource SlotCurrent s3 of
                         (aw, s4) \<Rightarrow> suspend (AwaitCreate SlotCurrent currentSource item aw) s4)))"

section \<open>Listener pre-creation and Playlist.create\<close>

definition beginListener :: "Proto \<Rightarrow> nat \<Rightarrow> string \<Rightarrow> PlaylistItem list \<Rightarrow> State \<Rightarrow> State" where
  "beginListener proto port ident rest s =
     s\<lparr>precreate := Some \<lparr>pc_proto = proto, pc_port = port, pc_node = nextNode s,
                           pc_id = ident, pc_rest = rest\<rparr>,
       nextNode := Suc (nextNode s)\<rparr>"

text \<open>
  The loop of \<^verbatim>\<open>precreateListeners\<close> from an item on, up to its next
  \<^verbatim>\<open>await ListenerNode.create(...)\<close>. An RTMP item whose port has a listener falls through
  to the \<^verbatim>\<open>rtp\<close> case, which only logs.
\<close>

fun precreateListeners :: "PlaylistItem list \<Rightarrow> State \<Rightarrow> State" where
  "precreateListeners [] s = s"
| "precreateListeners (item # rest) s =
     (case item_source item of
        Srt mode ip port \<Rightarrow>
          if mode = Listener \<and> srtListeners s port = None
          then beginListener ProtoSrt port (''srt-'' @ toString port) rest s
          else precreateListeners rest s
      | Rtmp port app stream \<Rightarrow>
          if rtmpListeners s port = None
          then beginListener ProtoRtmp port (''rtmp-'' @ toString port) rest s
          else precreateListeners rest s
      | _ \<Rightarrow> precreateListeners rest s)"

text \<open>
  The engine has made the listener node: \<^verbatim>\<open>ListenerNode.create\<close> returns, the listener is
  put into the map, and the loop goes on. Or the engine rejects, and the loop ends.
\<close>

definition listenerCreated :: "State \<Rightarrow> State" where
  "listenerCreated s =
     (case precreate s of
        None \<Rightarrow> s
      | Some t \<Rightarrow>
          precreateListeners (pc_rest t)
            (setListener (pc_proto t) (pc_port t)
               \<lparr>ln_node = Some (pc_node t), ln_onDisconnect = Map.empty\<rparr>
               (s\<lparr>precreate := None\<rparr>)))"

definition listenerFailed :: "State \<Rightarrow> State" where
  "listenerFailed s = s\<lparr>precreate := None\<rparr>"

text \<open>The constructor: \<^verbatim>\<open>if (transitionDuration) this.transitionDuration = transitionDuration\<close>.\<close>

definition Playlist_new :: "PlaylistItem list \<Rightarrow> int option \<Rightarrow> State" where
  "Playlist_new pl td =
     \<lparr>playlist = pl,
      transitionDuration = (case td of None \<Rightarrow> 300 | Some t \<Rightarrow> if t \<noteq> 0 then t else 300),
      sourceIndex = 0,
      playing_prev = None, playing_current = None, playing_next = None,
      playing = None,
      timeouts = [],
      srtListeners = Map.empty, rtmpListeners = Map.empty,
      store = Map.empty, nextAddr = 0,
      timers = [], nextTimer = 0,
      requests = Map.empty, nodes = Map.empty, rejectedRequests = [], nextNode = 0,
      mp4Info = Map.empty,
      tasks = [],
      precreate = None,
      exited = False,
      rejections = [],
      switcherSubs = [],
      switchCalls = [],
      closeCalls = []\<rparr>"

text \<open>
  \<^verbatim>\<open>Playlist.create\<close>, after the switcher and the other fixed nodes are made:
  \<^verbatim>\<open>let ret = new Playlist(...); ret.precreateListeners(); return ret\<close>. The call of
  \<^verbatim>\<open>precreateListeners\<close> is not awaited, so \<^verbatim>\<open>create\<close> returns the state in which that call
  reached its first suspension.
\<close>

definition Playlist_create :: "PlaylistItem list \<Rightarrow> int option \<Rightarrow> State" where
  "Playlist_create pl td = precreateListeners pl (Playlist_new pl td)"

section \<open>Events\<close>

text \<open>
  A disconnect callback that a listener holds, called with the name of the source: the SRT
  one calls \<^verbatim>\<open>update()\<close> and removes itself; the RTMP one does so only when the name is
  the item's \<^verbatim>\<open>sourceName\<close>.
\<close>

fun runDisconnectCb :: "Proto \<Rightarrow> nat \<Rightarrow> DisconnectCb \<Rightarrow> string \<Rightarrow> State \<Rightarrow> State" where
  "runDisconnectCb proto port (SrtDisconnect nodeId) name s =
     (let s1 = update s in if exited s1 then s1 else detach proto port nodeId s1)"
| "runDisconnectCb proto port (RtmpDisconnect nodeId sn) name s =
     (if Some name = sn
      then (let s1 = update s in if exited s1 then s1 else detach proto port nodeId s1)
      else s)"

definition fireTimer :: "Timer \<Rightarrow> State \<Rightarrow> State" where
  "fireTimer t s =
     (case timer_action t of
        DurationTimer c \<Rightarrow>
          (let close = map_option pi_closeNode (lookupItem s (playing_current s));
               s1 = update s
           in if exited s1 then s1 else setTimeout (CloseTimer close) 1000 s1)
      | CloseTimer close \<Rightarrow> (case close of None \<Rightarrow> s | Some cn \<Rightarrow> closeNode cn s)
      | NodeCloseTimer n \<Rightarrow> s\<lparr>closeCalls := closeCalls s @ [n]\<rparr>
      | SwitchTimer pin \<Rightarrow> s\<lparr>switchCalls := switchCalls s @ [pin]\<rparr>)"

text \<open>
  What can happen to the controller. \<open>Switch\<close> is a call of \<^verbatim>\<open>start()\<close> or \<^verbatim>\<open>switch()\<close>;
  \<open>Resume k\<close> lets the \<open>k\<close>-th suspended \<^verbatim>\<open>update\<close> go on; \<open>Disconnect\<close> is the listener's
  fan-out reaching the callback stored under one key (the loop over the callbacks is one such
  event for each); \<open>Streams k\<close> is the switcher calling the selector of its \<open>k\<close>-th
  subscription; the others are the engine's hooks and the runtime's timers.
\<close>

datatype Event =
    Switch
  | EngineCreated nat
  | EngineFailed nat
  | Resume nat
  | TimerFires nat
  | Eof nat
  | ConnectionStatusChange nat
  | Disconnect Proto nat string string
  | NodeClosed nat
  | Streams nat "StreamMetadata list"
  | Mp4Info nat "int option"
  | ListenerCreated
  | ListenerFailed

definition isFile :: "PlaylistSource \<Rightarrow> bool" where
  "isFile src = (case src of LocalTsFile _ \<Rightarrow> True | LocalMp4File _ \<Rightarrow> True | _ \<Rightarrow> False)"

definition isMp4 :: "PlaylistSource \<Rightarrow> bool" where
  "isMp4 src = (case src of LocalMp4File _ \<Rightarrow> True | _ \<Rightarrow> False)"

definition isSrtCaller :: "PlaylistSource \<Rightarrow> bool" where
  "isSrtCaller src = (case src of Srt mode _ _ \<Rightarrow> mode = Caller | _ \<Rightarrow> False)"

definition requestOf :: "State \<Rightarrow> nat \<Rightarrow> Request option" where
  "requestOf s r = (case nodes s r of Some req \<Rightarrow> Some req | None \<Rightarrow> requests s r)"

fun handle :: "Event \<Rightarrow> State \<Rightarrow> State" where
  "handle Switch s = update s"
| "handle (EngineCreated r) s = engineCreated r s"
| "handle (EngineFailed r) s = engineFailed r s"
| "handle (Resume k) s =
     (if k < length (tasks s)
      then (case resumeTask (tasks s ! k) (s\<lparr>tasks := take k (tasks s) @ drop (Suc k) (tasks s)\<rparr>) of
              None \<Rightarrow> s
            | Some s1 \<Rightarrow> s1)
      else s)"
| "handle (TimerFires tid) s =
     (case find (\<lambda>t. timer_id t = tid) (timers s) of
        None \<Rightarrow> s
      | Some t \<Rightarrow> fireTimer t (clearTimeout tid s))"
| "handle (Eof r) s =
     (case nodes s r of
        None \<Rightarrow> s
      | Some req \<Rightarrow>
          if isFile (item_source (req_item req)) then update (closeNode (closeNodeOf r req) s)
          else s)"
| "handle (ConnectionStatusChange r) s =
     (case nodes s r of
        None \<Rightarrow> s
      | Some req \<Rightarrow>
          if isSrtCaller (item_source (req_item req))
          then update (closeNode (closeNodeOf r req) s)
          else s)"
| "handle (Disconnect proto port key name) s =
     (case listenerOf proto port s of
        None \<Rightarrow> s
      | Some l \<Rightarrow>
          (case ln_onDisconnect l key of
             None \<Rightarrow> s
           | Some cb \<Rightarrow> runDisconnectCb proto port cb name s))"
| "handle (NodeClosed r) s = (case nodes s r of None \<Rightarrow> s | Some req \<Rightarrow> onClose r s)"
| "handle (Streams k streams) s =
     (if k < length (switcherSubs s)
      then snd (sourceSelector (sub_sourceSelector (switcherSubs s ! k)) streams s)
      else s)"
| "handle (Mp4Info r d) s =
     (case requestOf s r of
        None \<Rightarrow> s
      | Some req \<Rightarrow>
          if isMp4 (item_source (req_item req)) \<and> mp4Info s r = None
          then s\<lparr>mp4Info := (mp4Info s)(r \<mapsto> d)\<rparr>
          else s)"
| "handle ListenerCreated s = listenerCreated s"
| "handle ListenerFailed s = listenerFailed s"

text \<open>After \<^verbatim>\<open>process.exit\<close> nothing happens any more.\<close>

definition step :: "Event \<Rightarrow> State \<Rightarrow> State" where
  "step ev s = (if exited s then s else handle ev s)"

fun run :: "Event list \<Rightarrow> State \<Rightarrow> State" where
  "run [] s = s"
| "run (ev # evs) s = run evs (step ev s)"

section \<open>Notions used in the properties\<close>

text \<open>The items that use a shared listener, with the registry key of the listener.\<close>

definition listenerItem :: "PlaylistSource \<Rightarrow> (Proto \<times> nat) option" where
  "listenerItem src =
     (case src of
        Srt mode ip port \<Rightarrow> if mode = Listener then Some (ProtoSrt, port) else None
      | Rtmp port app stream \<Rightarrow> Some (ProtoRtmp, port)
      | _ \<Rightarrow> None)"

definition listenerNodeOf :: "Proto \<Rightarrow> nat \<Rightarrow> State \<Rightarrow> nat option" where
  "listenerNodeOf proto port s =
     (case listenerOf proto port s of None \<Rightarrow> None | Some l \<Rightarrow> ln_node l)"

definition callbackAt :: "Proto \<Rightarrow> nat \<Rightarrow> string \<Rightarrow> State \<Rightarrow> DisconnectCb option" where
  "callbackAt proto port key s =
     (case listenerOf proto port s of None \<Rightarrow> None | Some l \<Rightarrow> ln_onDisconnect l key)"

text \<open>The pending timers that, when they fire, call \<^verbatim>\<open>update()\<close> for the end of a duration.\<close>

fun isDurationTimer :: "TimerAction \<Rightarrow> bool" where
  "isDurationTimer (DurationTimer c) = True"
| "isDurationTimer _ = False"

definition durationPending :: "State \<Rightarrow> Timer list" where
  "durationPending s = filter (\<lambda>t. isDurationTimer (timer_action t)) (timers s)"

definition timerIds :: "State \<Rightarrow> nat set" where
  "timerIds s = timer_id ` set (timers s)"

text \<open>
  Every pending timer has an identifier below the next fresh one, and every pending duration
  timer is recorded in \<^verbatim>\<open>this.timeouts\<close>.
\<close>

definition timersTracked :: "State \<Rightarrow> bool" where
  "timersTracked s \<longleftrightarrow>
     (\<forall>t \<in> set (timers s). timer_id t < nextTimer s)
     \<and> (\<forall>t \<in> set (durationPending s). timer_id t \<in> set (timeouts s))"

text \<open>From \<open>s\<close> to \<open>s'\<close> no identifier was given out twice: what is pending in \<open>s'\<close> was pending in \<open>s\<close> or is new.\<close>

definition later :: "State \<Rightarrow> State \<Rightarrow> bool" where
  "later s s' \<longleftrightarrow>
     nextTimer s \<le> nextTimer s'
     \<and> (\<forall>k \<in> timerIds s'. k \<in> timerIds s \<or> nextTimer s \<le> k)"

text \<open>A step from \<open>s\<close> to \<open>s'\<close> that keeps the timers tracked and reuses no identifier.\<close>

definition safe :: "State \<Rightarrow> State \<Rightarrow> bool" where
  "safe s s' \<longleftrightarrow> (timersTracked s \<longrightarrow> timersTracked s') \<and> later s s'"

text \<open>The index of the item in a slot; the two parts of the slot invariant.\<close>

definition idxOf :: "State \<Rightarrow> nat option \<Rightarrow> nat option" where
  "idxOf s slot = map_option pi_index (lookupItem s slot)"

definition nextIsLive :: "State \<Rightarrow> bool" where
  "nextIsLive s =
     (case playing_next s of
        None \<Rightarrow> True
      | Some n \<Rightarrow>
          (case store s n of
             None \<Rightarrow> False
           | Some p \<Rightarrow> isLive (item_source (pi_item p))))"

definition nextFollowsCurrent :: "State \<Rightarrow> bool" where
  "nextFollowsCurrent s =
     (case lookupItem s (playing_current s) of
        None \<Rightarrow> True
      | Some c \<Rightarrow>
          (case lookupItem s (playing_next s) of
             None \<Rightarrow> True
           | Some n \<Rightarrow> pi_index n = pi_index c + 1))"

text \<open>Whether the handler of an event calls \<^verbatim>\<open>update()\<close> in a state.\<close>

fun callsUpdate :: "Event \<Rightarrow> State \<Rightarrow> bool" where
  "callsUpdate Switch s = True"
| "callsUpdate (TimerFires tid) s =
     (case find (\<lambda>t. timer_id t = tid) (timers s) of
        None \<Rightarrow> False
      | Some t \<Rightarrow> isDurationTimer (timer_action t))"
| "callsUpdate (Eof r) s =
     (case nodes s r of None \<Rightarrow> False | Some req \<Rightarrow> isFile (item_source (req_item req)))"
| "callsUpdate (ConnectionStatusChange r) s =
     (case nodes s r of None \<Rightarrow> False | Some req \<Rightarrow> isSrtCaller (item_source (req_item req)))"
| "callsUpdate (Disconnect proto port key name) s =
     (case callbackAt proto port key s of
        None \<Rightarrow> False
      | Some (SrtDisconnect nodeId) \<Rightarrow> True
      | Some (RtmpDisconnect nodeId sn) \<Rightarrow> Some name = sn)"
| "callsUpdate _ s = False"

text \<open>
  A run in which the invocations of \<^verbatim>\<open>update()\<close> do not overlap: no event calls
  \<^verbatim>\<open>update()\<close> while an earlier invocation is suspended. \<open>None\<close> when the run is not so.
\<close>

fun runSerial :: "Event list \<Rightarrow> State \<Rightarrow> State option" where
  "runSerial [] s = Some s"
| "runSerial (ev # evs) s =
     (if \<not> exited s \<and> callsUpdate ev s \<and> tasks s \<noteq> [] then None else runSerial evs (step ev s))"

text \<open>
  What holds of the store and of the engine's requests in every state: addresses and node
  numbers from the next fresh one on are unused.
\<close>

definition storeOK :: "State \<Rightarrow> bool" where
  "storeOK s \<longleftrightarrow> (\<forall>a. nextAddr s \<le> a \<longrightarrow> store s a = None)"

definition freshNodes :: "State \<Rightarrow> bool" where
  "freshNodes s \<longleftrightarrow>
     (\<forall>r. nextNode s \<le> r \<longrightarrow> requests s r = None \<and> nodes s r = None \<and> r \<notin> set (rejectedRequests s))"

text \<open>
  What holds while one invocation of \<^verbatim>\<open>update()\<close> is suspended, and between invocations.
\<close>

definition isDone :: "Awaited \<Rightarrow> State \<Rightarrow> bool" where
  "isDone aw s = (case awaitResult aw s of Done cn dur \<Rightarrow> True | _ \<Rightarrow> False)"

definition awaitedOK :: "Awaited \<Rightarrow> nat \<Rightarrow> SlotName \<Rightarrow> State \<Rightarrow> bool" where
  "awaitedOK aw i slot s =
     (case aw of
        OnRequest r \<Rightarrow>
          (\<forall>r'. requests s r' \<noteq> None \<longrightarrow> r' = r)
          \<and> (case requests s r of
                None \<Rightarrow> True
              | Some req \<Rightarrow>
                  req_subscribeIndex req = i \<and> req_subscribeSlot req = slot
                  \<and> nodes s r = None \<and> r \<notin> set (rejectedRequests s))
      | _ \<Rightarrow> requests s = Map.empty)"

fun taskOK :: "Task \<Rightarrow> State \<Rightarrow> bool" where
  "taskOK (AwaitCreate SlotCurrent c item aw) s =
     (sourceIndex s = Suc c \<and> awaitedOK aw c SlotCurrent s \<and> playing_next s = None
      \<and> (isDone aw s \<longrightarrow> idxOf s (playing_current s) = Some c))"
| "taskOK (AwaitCreate SlotNext c item aw) s =
     (sourceIndex s = Suc c \<and> awaitedOK aw (Suc c) SlotNext s \<and> Suc c < length (playlist s)
      \<and> idxOf s (playing_current s) = Some c
      \<and> (if isDone aw s then idxOf s (playing_next s) = Some (Suc c) else playing_next s = None))"
| "taskOK (AwaitDuration SlotCurrent c cn dur) s =
     (sourceIndex s = Suc c \<and> requests s = Map.empty \<and> playing_next s = None
      \<and> idxOf s (playing_current s) = Some c)"
| "taskOK (AwaitDuration SlotNext c cn dur) s =
     (sourceIndex s = Suc c \<and> requests s = Map.empty \<and> Suc c < length (playlist s)
      \<and> idxOf s (playing_current s) = Some c \<and> idxOf s (playing_next s) = Some (Suc c))"

definition idleOK :: "State \<Rightarrow> bool" where
  "idleOK s \<longleftrightarrow>
     requests s = Map.empty
     \<and> (playing_next s \<noteq> None \<longrightarrow>
          sourceIndex s < length (playlist s)
          \<and> idxOf s (playing_next s) = Some (sourceIndex s)
          \<and> (\<exists>c. idxOf s (playing_current s) = Some c \<and> sourceIndex s = Suc c))"

definition serialInv :: "State \<Rightarrow> bool" where
  "serialInv s \<longleftrightarrow>
     storeOK s \<and> freshNodes s
     \<and> (case tasks s of [] \<Rightarrow> idleOK s | [t] \<Rightarrow> taskOK t s | _ \<Rightarrow> False)"

text \<open>What holds in every state, overlapping invocations or not, of the next slot's item.\<close>

definition liveInv :: "State \<Rightarrow> bool" where
  "liveInv s \<longleftrightarrow>
     storeOK s \<and> nextIsLive s
     \<and> (\<forall>r req. requests s r = Some req \<longrightarrow> req_subscribeSlot req = SlotNext \<longrightarrow>
           isLive (item_source (req_item req)))"

text \<open>The ways in which \<^verbatim>\<open>createNode\<close> reaches its first suspension or its end.\<close>

definition requested :: "PlaylistItem \<Rightarrow> nat \<Rightarrow> SlotName \<Rightarrow> State \<Rightarrow> Awaited \<times> State \<Rightarrow> bool" where
  "requested item i slot s r \<longleftrightarrow>
     fst r = OnRequest (nextNode s)
     \<and> (\<exists>req. requests (snd r) = (requests s)(nextNode s \<mapsto> req)
              \<and> req_subscribeIndex req = i \<and> req_subscribeSlot req = slot \<and> req_item req = item)
     \<and> nextNode (snd r) = Suc (nextNode s)
     \<and> store (snd r) = store s \<and> nextAddr (snd r) = nextAddr s
     \<and> playing_current (snd r) = playing_current s \<and> playing_next (snd r) = playing_next s"

definition subscribed :: "PlaylistItem \<Rightarrow> nat \<Rightarrow> SlotName \<Rightarrow> State \<Rightarrow> Awaited \<times> State \<Rightarrow> bool" where
  "subscribed item i slot s r \<longleftrightarrow>
     (\<exists>cn dur. fst r = Resolved cn dur)
     \<and> requests (snd r) = requests s \<and> nextNode (snd r) = nextNode s
     \<and> (\<forall>a. map_option pi_index (store (snd r) a)
               = (if a = nextAddr s then Some i else map_option pi_index (store s a)))
     \<and> (\<forall>a. map_option pi_item (store (snd r) a)
               = (if a = nextAddr s then Some item else map_option pi_item (store s a)))
     \<and> nextAddr (snd r) = Suc (nextAddr s)
     \<and> playing_current (snd r) = (if slot = SlotCurrent then Some (nextAddr s) else playing_current s)
     \<and> playing_next (snd r) = (if slot = SlotNext then Some (nextAddr s) else playing_next s)"

text \<open>Two states that agree on all that the slot invariant looks at.\<close>

definition sameView :: "State \<Rightarrow> State \<Rightarrow> bool" where
  "sameView s s' \<longleftrightarrow>
     sourceIndex s' = sourceIndex s \<and> playlist s' = playlist s
     \<and> playing_current s' = playing_current s \<and> playing_next s' = playing_next s
     \<and> tasks s' = tasks s \<and> requests s' = requests s \<and> nodes s' = nodes s
     \<and> rejectedRequests s' = rejectedRequests s \<and> nextNode s \<le> nextNode s'
     \<and> nextAddr s' = nextAddr s
     \<and> (\<forall>a. map_option pi_index (store s' a) = map_option pi_index (store s a))
     \<and> (\<forall>a. map_option pi_item (store s' a) = map_option pi_item (store s a))"

text \<open>
  Every pending duration timer was armed for the item the playlist advanced to last: the
  timer of \<^verbatim>\<open>currentSource = c\<close> is pending only while \<^verbatim>\<open>sourceIndex\<close> is \<open>c + 1\<close>.
\<close>

definition durationForCurrent :: "State \<Rightarrow> bool" where
  "durationForCurrent s \<longleftrightarrow>
     (\<forall>t c. t \<in> set (durationPending s) \<longrightarrow> timer_action t = DurationTimer c \<longrightarrow>
            sourceIndex s = Suc c)"

text \<open>
  The numbers of the code are IEEE doubles and those of this model are integers. On the safe
  integers of JavaScript (\<^verbatim>\<open>Number.isSafeInteger\<close>: magnitude at most \<open>2^53 - 1\<close>) a double holds
  the integer itself, and a subtraction whose operands and exact result are safe integers
  gives that result. Outside of them (fractions, larger magnitudes, NaN, infinities) the model
  says nothing about the code.
\<close>

definition isSafeInteger :: "int \<Rightarrow> bool" where
  "isSafeInteger x \<longleftrightarrow> - 9007199254740991 \<le> x \<and> x \<le> 9007199254740991"

section \<open>Example inputs\<close>

definition info0 :: InitialCreateInfo where
  "info0 = \<lparr>ici_node = 0, ici_nodeId = ''input-3'', ici_kind = AV,
            ici_item = \<lparr>item_begin = None, item_duration = None, item_source = Rtp ''r''\<rparr>,
            ici_streamKeyFilter = AcceptAll,
            ici_closeNode = \<lparr>cn_isStandaloneNode = True, cn_nodeId = ''input-3'', cn_node = 0\<rparr>\<rparr>"

definition key0 :: StreamKey where
  "key0 = \<lparr>programNumber = 1, renditionName = ''default'', streamId = 256, sourceName = ''source''\<rparr>"

definition ts100 :: PlaylistItem where
  "ts100 = \<lparr>item_begin = None, item_duration = Some 100, item_source = LocalTsFile ''a.ts''\<rparr>"

definition ts5000 :: PlaylistItem where
  "ts5000 = \<lparr>item_begin = None, item_duration = Some 5000, item_source = LocalTsFile ''a.ts''\<rparr>"

definition tsFile :: PlaylistItem where
  "tsFile = \<lparr>item_begin = None, item_duration = None, item_source = LocalTsFile ''c.ts''\<rparr>"

definition rtpItem :: PlaylistItem where
  "rtpItem = \<lparr>item_begin = None, item_duration = None, item_source = Rtp ''streams''\<rparr>"

definition srtListenerItem :: PlaylistItem where
  "srtListenerItem =
     \<lparr>item_begin = None, item_duration = None, item_source = Srt Listener ''0.0.0.0'' 5000\<rparr>"

definition rtmpItem :: PlaylistItem where
  "rtmpItem = \<lparr>item_begin = None, item_duration = None, item_source = Rtmp 1935 None None\<rparr>"

definition sharedHandle :: CloseNode where
  "sharedHandle = \<lparr>cn_isStandaloneNode = False, cn_nodeId = ''input-0'', cn_node = 0\<rparr>"

definition standaloneHandle :: CloseNode where
  "standaloneHandle = \<lparr>cn_isStandaloneNode = True, cn_nodeId = ''input-0'', cn_node = 0\<rparr>"

text \<open>
  One SRT listener item: the listener is made, then \<^verbatim>\<open>start()\<close> binds slot 0 to it.
\<close>

definition listenerBound :: State where
  "listenerBound = run [ListenerCreated, Switch] (Playlist_create [srtListenerItem] None)"

text \<open>One file item of 100 ms: \<^verbatim>\<open>start()\<close>, the engine creates the node, \<^verbatim>\<open>update\<close> resumes.\<close>

definition fileCreated :: State where
  "fileCreated = run [Switch, EngineCreated 0] (Playlist_create [ts100] None)"

definition shortFilePlaying :: State where
  "shortFilePlaying = run [Switch, EngineCreated 0, Resume 0] (Playlist_create [ts100] None)"

definition filePlaying :: State where
  "filePlaying = run [Switch, EngineCreated 0, Resume 0] (Playlist_create [ts5000, rtpItem] None)"

text \<open>
  A file item, an RTP item and a file item. \<^verbatim>\<open>start()\<close> plays item 0 and begins to prewarm
  item 1; while the engine is still creating that node, \<^verbatim>\<open>switch()\<close> is called and its
  \<^verbatim>\<open>update()\<close> runs to its end; then the engine delivers the prewarmed node.
\<close>

definition switchDuringPrewarm :: State where
  "switchDuringPrewarm =
     run [Switch, EngineCreated 0, Resume 0, Switch, EngineCreated 2, Resume 1, Resume 1,
          EngineCreated 1]
       (Playlist_create [ts5000, rtpItem, tsFile] None)"

definition mp4Item :: PlaylistItem where
  "mp4Item = \<lparr>item_begin = None, item_duration = None, item_source = LocalMp4File ''b.mp4''\<rparr>"

text \<open>An MP4 item without a duration of its own, for which the engine reports 0 ms.\<close>

definition emptyMp4Playing :: State where
  "emptyMp4Playing =
     run [Switch, EngineCreated 0, Resume 0, Mp4Info 0 (Some 0), Resume 0]
       (Playlist_create [mp4Item] None)"

text \<open>A file item of 100 ms followed by another file, playing item 0.\<close>

definition shortFileFirst :: State where
  "shortFileFirst = run [Switch, EngineCreated 0, Resume 0] (Playlist_create [ts100, tsFile] None)"

text \<open>
  The same run at the moment at which the resumed \<^verbatim>\<open>update()\<close> has written the duration of
  item 0 and \<^verbatim>\<open>closeNode\<close> to the current slot and goes on to the duration timer.
\<close>

definition shortFileResolved :: State where
  "shortFileResolved =
     writeBack (playing_current (run [Switch, EngineCreated 0] (Playlist_create [ts100, tsFile] None)))
       (Some 100) standaloneHandle
       ((run [Switch, EngineCreated 0] (Playlist_create [ts100, tsFile] None))\<lparr>tasks := []\<rparr>)"

text \<open>
  A file item of 5000 ms and two more files. \<^verbatim>\<open>start()\<close> and at once \<^verbatim>\<open>switch()\<close>, before the
  engine has created the node of item 0; then the engine creates both nodes and both
  invocations of \<^verbatim>\<open>update()\<close> run to their ends, the one for item 0 first.
\<close>

definition lateTimerArmed :: State where
  "lateTimerArmed =
     run [Switch, Switch, EngineCreated 0, Resume 0, EngineCreated 1, Resume 0, Resume 0]
       (Playlist_create [ts5000, tsFile, tsFile] None)"

definition rtmpNamedItem :: PlaylistItem where
  "rtmpNamedItem =
     \<lparr>item_begin = None, item_duration = None, item_source = Rtmp 1935 (Some ''a'') (Some ''1'')\<rparr>"

text \<open>
  An RTMP item \<^verbatim>\<open>a/1\<close>, a file, an RTMP item without a name and a file, all RTMP on port
  1935. The listener is made; \<^verbatim>\<open>start()\<close> plays item 0; \<^verbatim>\<open>switch()\<close> plays the file and
  prewarms the nameless item; a second \<^verbatim>\<open>switch()\<close> makes the nameless item current. Each
  \<^verbatim>\<open>update()\<close> has run to its end before the next one is called.
\<close>

definition namelessCurrentEvents :: "Event list" where
  "namelessCurrentEvents =
     [ListenerCreated, Switch, Resume 0, Resume 0, Switch, EngineCreated 1, Resume 0, Resume 0,
      Resume 0, Resume 0, Switch]"

definition namelessCurrent :: State where
  "namelessCurrent =
     run namelessCurrentEvents (Playlist_create [rtmpNamedItem, tsFile, rtmpItem, tsFile] None)"

section \<open>Properties\<close>

text \<open>The definitions of the model, for evaluating it on a concrete run.\<close>

lemmas model_defs =
  Playlist_create_def Playlist_new_def step_def update_def Let_def case_prod_beta
  createNode_def useListener_def requestNode_def listenerOf_def setListener_def attach_def
  detach_def nodeIdOf_def toString.simps digitChar_def suspend_def reject_def awaitResult_def
  afterCreate_def update_tail_def prewarm_def scheduleDuration_def writeBack_def
  subscribeToNode_def setSlot_def refreshSubs_def refreshActive_def activateSource_def
  lookupItem_def subs_def setTimeout_def clearTimeout_def closeNode_def closeNodeOf_def
  durationOf_def engineCreated_def engineFailed_def listenerCreated_def listenerFailed_def
  beginListener_def fireTimer_def onClose_def requestOf_def isFile_def isMp4_def
  isSrtCaller_def rtmpSourceName_def selectStreams_def selectSilence_def setReady_def
  audioStreamKeys_def videoStreamKeys_def callbackAt_def listenerNodeOf_def listenerItem_def

subsection \<open>What the helpers leave alone\<close>

lemma store_setReady:
  "store s a = Some p \<Longrightarrow> store (setReady a r s) a = Some (p\<lparr>pi_ready := r\<rparr>)"
  by (simp add: setReady_def)

lemma clearTimeouts_eq:
  "clearTimeouts ts s =
     (if ts = [] then s
      else s\<lparr>timers := filter (\<lambda>x. timer_id x \<notin> set ts) (timers s), timeouts := []\<rparr>)"
proof (induction ts arbitrary: s)
  case Nil
  show ?case by simp
next
  case (Cons t ts)
  then show ?case
    by (simp add: clearTimeout_def conj_commute)
qed

lemma setTimeout_frame [simp]:
  "playlist (setTimeout act d s) = playlist s"
  "transitionDuration (setTimeout act d s) = transitionDuration s"
  "sourceIndex (setTimeout act d s) = sourceIndex s"
  "playing_prev (setTimeout act d s) = playing_prev s"
  "playing_current (setTimeout act d s) = playing_current s"
  "playing_next (setTimeout act d s) = playing_next s"
  "playing (setTimeout act d s) = playing s"
  "timeouts (setTimeout act d s) = timeouts s"
  "srtListeners (setTimeout act d s) = srtListeners s"
  "rtmpListeners (setTimeout act d s) = rtmpListeners s"
  "store (setTimeout act d s) = store s"
  "nextAddr (setTimeout act d s) = nextAddr s"
  "requests (setTimeout act d s) = requests s"
  "nodes (setTimeout act d s) = nodes s"
  "rejectedRequests (setTimeout act d s) = rejectedRequests s"
  "nextNode (setTimeout act d s) = nextNode s"
  "mp4Info (setTimeout act d s) = mp4Info s"
  "tasks (setTimeout act d s) = tasks s"
  "precreate (setTimeout act d s) = precreate s"
  "exited (setTimeout act d s) = exited s"
  "rejections (setTimeout act d s) = rejections s"
  "switcherSubs (setTimeout act d s) = switcherSubs s"
  "switchCalls (setTimeout act d s) = switchCalls s"
  "closeCalls (setTimeout act d s) = closeCalls s"
  by (simp_all add: setTimeout_def)

lemma clearTimeout_frame [simp]:
  "playlist (clearTimeout t s) = playlist s"
  "transitionDuration (clearTimeout t s) = transitionDuration s"
  "sourceIndex (clearTimeout t s) = sourceIndex s"
  "playing_prev (clearTimeout t s) = playing_prev s"
  "playing_current (clearTimeout t s) = playing_current s"
  "playing_next (clearTimeout t s) = playing_next s"
  "playing (clearTimeout t s) = playing s"
  "timeouts (clearTimeout t s) = timeouts s"
  "srtListeners (clearTimeout t s) = srtListeners s"
  "rtmpListeners (clearTimeout t s) = rtmpListeners s"
  "store (clearTimeout t s) = store s"
  "nextAddr (clearTimeout t s) = nextAddr s"
  "nextTimer (clearTimeout t s) = nextTimer s"
  "requests (clearTimeout t s) = requests s"
  "nodes (clearTimeout t s) = nodes s"
  "rejectedRequests (clearTimeout t s) = rejectedRequests s"
  "nextNode (clearTimeout t s) = nextNode s"
  "mp4Info (clearTimeout t s) = mp4Info s"
  "tasks (clearTimeout t s) = tasks s"
  "precreate (clearTimeout t s) = precreate s"
  "exited (clearTimeout t s) = exited s"
  "rejections (clearTimeout t s) = rejections s"
  "switcherSubs (clearTimeout t s) = switcherSubs s"
  "switchCalls (clearTimeout t s) = switchCalls s"
  "closeCalls (clearTimeout t s) = closeCalls s"
  by (simp_all add: clearTimeout_def)

lemma clearTimeouts_frame [simp]:
  "playlist (clearTimeouts ts s) = playlist s"
  "transitionDuration (clearTimeouts ts s) = transitionDuration s"
  "sourceIndex (clearTimeouts ts s) = sourceIndex s"
  "playing_prev (clearTimeouts ts s) = playing_prev s"
  "playing_current (clearTimeouts ts s) = playing_current s"
  "playing_next (clearTimeouts ts s) = playing_next s"
  "playing (clearTimeouts ts s) = playing s"
  "srtListeners (clearTimeouts ts s) = srtListeners s"
  "rtmpListeners (clearTimeouts ts s) = rtmpListeners s"
  "store (clearTimeouts ts s) = store s"
  "nextAddr (clearTimeouts ts s) = nextAddr s"
  "nextTimer (clearTimeouts ts s) = nextTimer s"
  "requests (clearTimeouts ts s) = requests s"
  "nodes (clearTimeouts ts s) = nodes s"
  "rejectedRequests (clearTimeouts ts s) = rejectedRequests s"
  "nextNode (clearTimeouts ts s) = nextNode s"
  "mp4Info (clearTimeouts ts s) = mp4Info s"
  "tasks (clearTimeouts ts s) = tasks s"
  "precreate (clearTimeouts ts s) = precreate s"
  "exited (clearTimeouts ts s) = exited s"
  "rejections (clearTimeouts ts s) = rejections s"
  "switcherSubs (clearTimeouts ts s) = switcherSubs s"
  "switchCalls (clearTimeouts ts s) = switchCalls s"
  "closeCalls (clearTimeouts ts s) = closeCalls s"
  by (simp_all add: clearTimeouts_eq)

lemma refreshSubs_frame [simp]:
  "playlist (refreshSubs s) = playlist s"
  "transitionDuration (refreshSubs s) = transitionDuration s"
  "sourceIndex (refreshSubs s) = sourceIndex s"
  "playing_prev (refreshSubs s) = playing_prev s"
  "playing_current (refreshSubs s) = playing_current s"
  "playing_next (refreshSubs s) = playing_next s"
  "playing (refreshSubs s) = playing s"
  "timeouts (refreshSubs s) = timeouts s"
  "srtListeners (refreshSubs s) = srtListeners s"
  "rtmpListeners (refreshSubs s) = rtmpListeners s"
  "store (refreshSubs s) = store s"
  "nextAddr (refreshSubs s) = nextAddr s"
  "timers (refreshSubs s) = timers s"
  "nextTimer (refreshSubs s) = nextTimer s"
  "requests (refreshSubs s) = requests s"
  "nodes (refreshSubs s) = nodes s"
  "rejectedRequests (refreshSubs s) = rejectedRequests s"
  "nextNode (refreshSubs s) = nextNode s"
  "mp4Info (refreshSubs s) = mp4Info s"
  "tasks (refreshSubs s) = tasks s"
  "precreate (refreshSubs s) = precreate s"
  "exited (refreshSubs s) = exited s"
  "rejections (refreshSubs s) = rejections s"
  "switchCalls (refreshSubs s) = switchCalls s"
  "closeCalls (refreshSubs s) = closeCalls s"
  by (simp_all add: refreshSubs_def)

lemma activateSource_frame [simp]:
  "playlist (activateSource p s) = playlist s"
  "transitionDuration (activateSource p s) = transitionDuration s"
  "sourceIndex (activateSource p s) = sourceIndex s"
  "playing_prev (activateSource p s) = playing_prev s"
  "playing_current (activateSource p s) = playing_current s"
  "playing_next (activateSource p s) = playing_next s"
  "timeouts (activateSource p s) = timeouts s"
  "srtListeners (activateSource p s) = srtListeners s"
  "rtmpListeners (activateSource p s) = rtmpListeners s"
  "store (activateSource p s) = store s"
  "nextAddr (activateSource p s) = nextAddr s"
  "requests (activateSource p s) = requests s"
  "nodes (activateSource p s) = nodes s"
  "rejectedRequests (activateSource p s) = rejectedRequests s"
  "nextNode (activateSource p s) = nextNode s"
  "mp4Info (activateSource p s) = mp4Info s"
  "tasks (activateSource p s) = tasks s"
  "precreate (activateSource p s) = precreate s"
  "exited (activateSource p s) = exited s"
  "rejections (activateSource p s) = rejections s"
  "switcherSubs (activateSource p s) = switcherSubs s"
  "switchCalls (activateSource p s) = switchCalls s"
  "closeCalls (activateSource p s) = closeCalls s"
  by (simp_all add: activateSource_def)

lemma refreshActive_frame [simp]:
  "playlist (refreshActive s) = playlist s"
  "transitionDuration (refreshActive s) = transitionDuration s"
  "sourceIndex (refreshActive s) = sourceIndex s"
  "playing_prev (refreshActive s) = playing_prev s"
  "playing_current (refreshActive s) = playing_current s"
  "playing_next (refreshActive s) = playing_next s"
  "timeouts (refreshActive s) = timeouts s"
  "srtListeners (refreshActive s) = srtListeners s"
  "rtmpListeners (refreshActive s) = rtmpListeners s"
  "store (refreshActive s) = store s"
  "nextAddr (refreshActive s) = nextAddr s"
  "requests (refreshActive s) = requests s"
  "nodes (refreshActive s) = nodes s"
  "rejectedRequests (refreshActive s) = rejectedRequests s"
  "nextNode (refreshActive s) = nextNode s"
  "mp4Info (refreshActive s) = mp4Info s"
  "tasks (refreshActive s) = tasks s"
  "precreate (refreshActive s) = precreate s"
  "exited (refreshActive s) = exited s"
  "rejections (refreshActive s) = rejections s"
  "switcherSubs (refreshActive s) = switcherSubs s"
  "switchCalls (refreshActive s) = switchCalls s"
  "closeCalls (refreshActive s) = closeCalls s"
  by (simp_all add: refreshActive_def split: option.splits)

lemma onClose_frame [simp]:
  "playlist (onClose n s) = playlist s"
  "transitionDuration (onClose n s) = transitionDuration s"
  "sourceIndex (onClose n s) = sourceIndex s"
  "playing_current (onClose n s) = playing_current s"
  "playing_next (onClose n s) = playing_next s"
  "playing (onClose n s) = playing s"
  "timeouts (onClose n s) = timeouts s"
  "srtListeners (onClose n s) = srtListeners s"
  "rtmpListeners (onClose n s) = rtmpListeners s"
  "store (onClose n s) = store s"
  "nextAddr (onClose n s) = nextAddr s"
  "timers (onClose n s) = timers s"
  "nextTimer (onClose n s) = nextTimer s"
  "requests (onClose n s) = requests s"
  "nodes (onClose n s) = nodes s"
  "rejectedRequests (onClose n s) = rejectedRequests s"
  "nextNode (onClose n s) = nextNode s"
  "mp4Info (onClose n s) = mp4Info s"
  "tasks (onClose n s) = tasks s"
  "precreate (onClose n s) = precreate s"
  "exited (onClose n s) = exited s"
  "rejections (onClose n s) = rejections s"
  "switchCalls (onClose n s) = switchCalls s"
  "closeCalls (onClose n s) = closeCalls s"
  by (simp_all add: onClose_def split: option.splits)

lemma setReady_frame [simp]:
  "playlist (setReady a r s) = playlist s"
  "transitionDuration (setReady a r s) = transitionDuration s"
  "sourceIndex (setReady a r s) = sourceIndex s"
  "playing_prev (setReady a r s) = playing_prev s"
  "playing_current (setReady a r s) = playing_current s"
  "playing_next (setReady a r s) = playing_next s"
  "playing (setReady a r s) = playing s"
  "timeouts (setReady a r s) = timeouts s"
  "srtListeners (setReady a r s) = srtListeners s"
  "rtmpListeners (setReady a r s) = rtmpListeners s"
  "nextAddr (setReady a r s) = nextAddr s"
  "timers (setReady a r s) = timers s"
  "nextTimer (setReady a r s) = nextTimer s"
  "requests (setReady a r s) = requests s"
  "nodes (setReady a r s) = nodes s"
  "rejectedRequests (setReady a r s) = rejectedRequests s"
  "nextNode (setReady a r s) = nextNode s"
  "mp4Info (setReady a r s) = mp4Info s"
  "tasks (setReady a r s) = tasks s"
  "precreate (setReady a r s) = precreate s"
  "exited (setReady a r s) = exited s"
  "rejections (setReady a r s) = rejections s"
  "switcherSubs (setReady a r s) = switcherSubs s"
  "switchCalls (setReady a r s) = switchCalls s"
  "closeCalls (setReady a r s) = closeCalls s"
  by (simp_all add: setReady_def split: option.splits)

lemma selectStreams_frame [simp]:
  "playlist (snd (selectStreams idx f kind st streams s)) = playlist s"
  "transitionDuration (snd (selectStreams idx f kind st streams s)) = transitionDuration s"
  "sourceIndex (snd (selectStreams idx f kind st streams s)) = sourceIndex s"
  "playing_prev (snd (selectStreams idx f kind st streams s)) = playing_prev s"
  "playing_current (snd (selectStreams idx f kind st streams s)) = playing_current s"
  "playing_next (snd (selectStreams idx f kind st streams s)) = playing_next s"
  "timeouts (snd (selectStreams idx f kind st streams s)) = timeouts s"
  "srtListeners (snd (selectStreams idx f kind st streams s)) = srtListeners s"
  "rtmpListeners (snd (selectStreams idx f kind st streams s)) = rtmpListeners s"
  "nextAddr (snd (selectStreams idx f kind st streams s)) = nextAddr s"
  "requests (snd (selectStreams idx f kind st streams s)) = requests s"
  "nodes (snd (selectStreams idx f kind st streams s)) = nodes s"
  "rejectedRequests (snd (selectStreams idx f kind st streams s)) = rejectedRequests s"
  "nextNode (snd (selectStreams idx f kind st streams s)) = nextNode s"
  "mp4Info (snd (selectStreams idx f kind st streams s)) = mp4Info s"
  "tasks (snd (selectStreams idx f kind st streams s)) = tasks s"
  "precreate (snd (selectStreams idx f kind st streams s)) = precreate s"
  "exited (snd (selectStreams idx f kind st streams s)) = exited s"
  "rejections (snd (selectStreams idx f kind st streams s)) = rejections s"
  "switcherSubs (snd (selectStreams idx f kind st streams s)) = switcherSubs s"
  "switchCalls (snd (selectStreams idx f kind st streams s)) = switchCalls s"
  "closeCalls (snd (selectStreams idx f kind st streams s)) = closeCalls s"
  by (simp_all add: selectStreams_def Let_def)

lemma sourceSelector_frame [simp]:
  "playlist (snd (sourceSelector sel streams s)) = playlist s"
  "transitionDuration (snd (sourceSelector sel streams s)) = transitionDuration s"
  "sourceIndex (snd (sourceSelector sel streams s)) = sourceIndex s"
  "playing_prev (snd (sourceSelector sel streams s)) = playing_prev s"
  "playing_current (snd (sourceSelector sel streams s)) = playing_current s"
  "playing_next (snd (sourceSelector sel streams s)) = playing_next s"
  "timeouts (snd (sourceSelector sel streams s)) = timeouts s"
  "srtListeners (snd (sourceSelector sel streams s)) = srtListeners s"
  "rtmpListeners (snd (sourceSelector sel streams s)) = rtmpListeners s"
  "nextAddr (snd (sourceSelector sel streams s)) = nextAddr s"
  "requests (snd (sourceSelector sel streams s)) = requests s"
  "nodes (snd (sourceSelector sel streams s)) = nodes s"
  "rejectedRequests (snd (sourceSelector sel streams s)) = rejectedRequests s"
  "nextNode (snd (sourceSelector sel streams s)) = nextNode s"
  "mp4Info (snd (sourceSelector sel streams s)) = mp4Info s"
  "tasks (snd (sourceSelector sel streams s)) = tasks s"
  "precreate (snd (sourceSelector sel streams s)) = precreate s"
  "exited (snd (sourceSelector sel streams s)) = exited s"
  "rejections (snd (sourceSelector sel streams s)) = rejections s"
  "switcherSubs (snd (sourceSelector sel streams s)) = switcherSubs s"
  "switchCalls (snd (sourceSelector sel streams s)) = switchCalls s"
  "closeCalls (snd (sourceSelector sel streams s)) = closeCalls s"
  by (cases sel; simp)+

lemma setSlot_frame [simp]:
  "playlist (setSlot nodeType a s) = playlist s"
  "transitionDuration (setSlot nodeType a s) = transitionDuration s"
  "sourceIndex (setSlot nodeType a s) = sourceIndex s"
  "playing_prev (setSlot nodeType a s) = playing_prev s"
  "playing (setSlot nodeType a s) = playing s"
  "timeouts (setSlot nodeType a s) = timeouts s"
  "srtListeners (setSlot nodeType a s) = srtListeners s"
  "rtmpListeners (setSlot nodeType a s) = rtmpListeners s"
  "store (setSlot nodeType a s) = store s"
  "nextAddr (setSlot nodeType a s) = nextAddr s"
  "timers (setSlot nodeType a s) = timers s"
  "nextTimer (setSlot nodeType a s) = nextTimer s"
  "requests (setSlot nodeType a s) = requests s"
  "nodes (setSlot nodeType a s) = nodes s"
  "rejectedRequests (setSlot nodeType a s) = rejectedRequests s"
  "nextNode (setSlot nodeType a s) = nextNode s"
  "mp4Info (setSlot nodeType a s) = mp4Info s"
  "tasks (setSlot nodeType a s) = tasks s"
  "precreate (setSlot nodeType a s) = precreate s"
  "exited (setSlot nodeType a s) = exited s"
  "rejections (setSlot nodeType a s) = rejections s"
  "switcherSubs (setSlot nodeType a s) = switcherSubs s"
  "switchCalls (setSlot nodeType a s) = switchCalls s"
  "closeCalls (setSlot nodeType a s) = closeCalls s"
  by (simp_all add: setSlot_def split: SlotName.splits)

lemma subscribeToNode_frame [simp]:
  "playlist (subscribeToNode idx nodeType info s) = playlist s"
  "transitionDuration (subscribeToNode idx nodeType info s) = transitionDuration s"
  "sourceIndex (subscribeToNode idx nodeType info s) = sourceIndex s"
  "playing_prev (subscribeToNode idx nodeType info s) = playing_prev s"
  "playing (subscribeToNode idx nodeType info s) = playing s"
  "timeouts (subscribeToNode idx nodeType info s) = timeouts s"
  "srtListeners (subscribeToNode idx nodeType info s) = srtListeners s"
  "rtmpListeners (subscribeToNode idx nodeType info s) = rtmpListeners s"
  "timers (subscribeToNode idx nodeType info s) = timers s"
  "nextTimer (subscribeToNode idx nodeType info s) = nextTimer s"
  "requests (subscribeToNode idx nodeType info s) = requests s"
  "nodes (subscribeToNode idx nodeType info s) = nodes s"
  "rejectedRequests (subscribeToNode idx nodeType info s) = rejectedRequests s"
  "nextNode (subscribeToNode idx nodeType info s) = nextNode s"
  "mp4Info (subscribeToNode idx nodeType info s) = mp4Info s"
  "tasks (subscribeToNode idx nodeType info s) = tasks s"
  "precreate (subscribeToNode idx nodeType info s) = precreate s"
  "exited (subscribeToNode idx nodeType info s) = exited s"
  "rejections (subscribeToNode idx nodeType info s) = rejections s"
  "switchCalls (subscribeToNode idx nodeType info s) = switchCalls s"
  "closeCalls (subscribeToNode idx nodeType info s) = closeCalls s"
  by (simp_all add: subscribeToNode_def Let_def)

lemma closeNode_frame [simp]:
  "playlist (closeNode cn s) = playlist s"
  "transitionDuration (closeNode cn s) = transitionDuration s"
  "sourceIndex (closeNode cn s) = sourceIndex s"
  "playing_prev (closeNode cn s) = playing_prev s"
  "playing_current (closeNode cn s) = playing_current s"
  "playing_next (closeNode cn s) = playing_next s"
  "playing (closeNode cn s) = playing s"
  "timeouts (closeNode cn s) = timeouts s"
  "srtListeners (closeNode cn s) = srtListeners s"
  "rtmpListeners (closeNode cn s) = rtmpListeners s"
  "store (closeNode cn s) = store s"
  "nextAddr (closeNode cn s) = nextAddr s"
  "requests (closeNode cn s) = requests s"
  "nodes (closeNode cn s) = nodes s"
  "rejectedRequests (closeNode cn s) = rejectedRequests s"
  "nextNode (closeNode cn s) = nextNode s"
  "mp4Info (closeNode cn s) = mp4Info s"
  "tasks (closeNode cn s) = tasks s"
  "precreate (closeNode cn s) = precreate s"
  "exited (closeNode cn s) = exited s"
  "rejections (closeNode cn s) = rejections s"
  "switcherSubs (closeNode cn s) = switcherSubs s"
  "switchCalls (closeNode cn s) = switchCalls s"
  "closeCalls (closeNode cn s) = closeCalls s"
  by (simp_all add: closeNode_def)

lemma requestNode_frame [simp]:
  "playlist (snd (requestNode item c i sl s)) = playlist s"
  "transitionDuration (snd (requestNode item c i sl s)) = transitionDuration s"
  "sourceIndex (snd (requestNode item c i sl s)) = sourceIndex s"
  "playing_prev (snd (requestNode item c i sl s)) = playing_prev s"
  "playing_current (snd (requestNode item c i sl s)) = playing_current s"
  "playing_next (snd (requestNode item c i sl s)) = playing_next s"
  "playing (snd (requestNode item c i sl s)) = playing s"
  "timeouts (snd (requestNode item c i sl s)) = timeouts s"
  "srtListeners (snd (requestNode item c i sl s)) = srtListeners s"
  "rtmpListeners (snd (requestNode item c i sl s)) = rtmpListeners s"
  "store (snd (requestNode item c i sl s)) = store s"
  "nextAddr (snd (requestNode item c i sl s)) = nextAddr s"
  "timers (snd (requestNode item c i sl s)) = timers s"
  "nextTimer (snd (requestNode item c i sl s)) = nextTimer s"
  "nodes (snd (requestNode item c i sl s)) = nodes s"
  "rejectedRequests (snd (requestNode item c i sl s)) = rejectedRequests s"
  "mp4Info (snd (requestNode item c i sl s)) = mp4Info s"
  "tasks (snd (requestNode item c i sl s)) = tasks s"
  "precreate (snd (requestNode item c i sl s)) = precreate s"
  "exited (snd (requestNode item c i sl s)) = exited s"
  "rejections (snd (requestNode item c i sl s)) = rejections s"
  "switcherSubs (snd (requestNode item c i sl s)) = switcherSubs s"
  "switchCalls (snd (requestNode item c i sl s)) = switchCalls s"
  "closeCalls (snd (requestNode item c i sl s)) = closeCalls s"
  by (simp_all add: requestNode_def Let_def)

lemma setListener_frame [simp]:
  "playlist (setListener proto port l s) = playlist s"
  "transitionDuration (setListener proto port l s) = transitionDuration s"
  "sourceIndex (setListener proto port l s) = sourceIndex s"
  "playing_prev (setListener proto port l s) = playing_prev s"
  "playing_current (setListener proto port l s) = playing_current s"
  "playing_next (setListener proto port l s) = playing_next s"
  "playing (setListener proto port l s) = playing s"
  "timeouts (setListener proto port l s) = timeouts s"
  "store (setListener proto port l s) = store s"
  "nextAddr (setListener proto port l s) = nextAddr s"
  "timers (setListener proto port l s) = timers s"
  "nextTimer (setListener proto port l s) = nextTimer s"
  "requests (setListener proto port l s) = requests s"
  "nodes (setListener proto port l s) = nodes s"
  "rejectedRequests (setListener proto port l s) = rejectedRequests s"
  "nextNode (setListener proto port l s) = nextNode s"
  "mp4Info (setListener proto port l s) = mp4Info s"
  "tasks (setListener proto port l s) = tasks s"
  "precreate (setListener proto port l s) = precreate s"
  "exited (setListener proto port l s) = exited s"
  "rejections (setListener proto port l s) = rejections s"
  "switcherSubs (setListener proto port l s) = switcherSubs s"
  "switchCalls (setListener proto port l s) = switchCalls s"
  "closeCalls (setListener proto port l s) = closeCalls s"
  by (simp_all add: setListener_def split: Proto.splits)

lemma attach_frame [simp]:
  "playlist (attach proto port k cb s) = playlist s"
  "transitionDuration (attach proto port k cb s) = transitionDuration s"
  "sourceIndex (attach proto port k cb s) = sourceIndex s"
  "playing_prev (attach proto port k cb s) = playing_prev s"
  "playing_current (attach proto port k cb s) = playing_current s"
  "playing_next (attach proto port k cb s) = playing_next s"
  "playing (attach proto port k cb s) = playing s"
  "timeouts (attach proto port k cb s) = timeouts s"
  "store (attach proto port k cb s) = store s"
  "nextAddr (attach proto port k cb s) = nextAddr s"
  "timers (attach proto port k cb s) = timers s"
  "nextTimer (attach proto port k cb s) = nextTimer s"
  "requests (attach proto port k cb s) = requests s"
  "nodes (attach proto port k cb s) = nodes s"
  "rejectedRequests (attach proto port k cb s) = rejectedRequests s"
  "nextNode (attach proto port k cb s) = nextNode s"
  "mp4Info (attach proto port k cb s) = mp4Info s"
  "tasks (attach proto port k cb s) = tasks s"
  "precreate (attach proto port k cb s) = precreate s"
  "exited (attach proto port k cb s) = exited s"
  "rejections (attach proto port k cb s) = rejections s"
  "switcherSubs (attach proto port k cb s) = switcherSubs s"
  "switchCalls (attach proto port k cb s) = switchCalls s"
  "closeCalls (attach proto port k cb s) = closeCalls s"
  by (simp_all add: attach_def split: option.splits)

lemma detach_frame [simp]:
  "playlist (detach proto port k s) = playlist s"
  "transitionDuration (detach proto port k s) = transitionDuration s"
  "sourceIndex (detach proto port k s) = sourceIndex s"
  "playing_prev (detach proto port k s) = playing_prev s"
  "playing_current (detach proto port k s) = playing_current s"
  "playing_next (detach proto port k s) = playing_next s"
  "playing (detach proto port k s) = playing s"
  "timeouts (detach proto port k s) = timeouts s"
  "store (detach proto port k s) = store s"
  "nextAddr (detach proto port k s) = nextAddr s"
  "timers (detach proto port k s) = timers s"
  "nextTimer (detach proto port k s) = nextTimer s"
  "requests (detach proto port k s) = requests s"
  "nodes (detach proto port k s) = nodes s"
  "rejectedRequests (detach proto port k s) = rejectedRequests s"
  "nextNode (detach proto port k s) = nextNode s"
  "mp4Info (detach proto port k s) = mp4Info s"
  "tasks (detach proto port k s) = tasks s"
  "precreate (detach proto port k s) = precreate s"
  "exited (detach proto port k s) = exited s"
  "rejections (detach proto port k s) = rejections s"
  "switcherSubs (detach proto port k s) = switcherSubs s"
  "switchCalls (detach proto port k s) = switchCalls s"
  "closeCalls (detach proto port k s) = closeCalls s"
  by (simp_all add: detach_def split: option.splits)

lemma useListener_frame [simp]:
  "playlist (snd (useListener proto port cb f item k i sl s)) = playlist s"
  "transitionDuration (snd (useListener proto port cb f item k i sl s)) = transitionDuration s"
  "sourceIndex (snd (useListener proto port cb f item k i sl s)) = sourceIndex s"
  "playing_prev (snd (useListener proto port cb f item k i sl s)) = playing_prev s"
  "playing (snd (useListener proto port cb f item k i sl s)) = playing s"
  "timeouts (snd (useListener proto port cb f item k i sl s)) = timeouts s"
  "timers (snd (useListener proto port cb f item k i sl s)) = timers s"
  "nextTimer (snd (useListener proto port cb f item k i sl s)) = nextTimer s"
  "requests (snd (useListener proto port cb f item k i sl s)) = requests s"
  "nodes (snd (useListener proto port cb f item k i sl s)) = nodes s"
  "rejectedRequests (snd (useListener proto port cb f item k i sl s)) = rejectedRequests s"
  "nextNode (snd (useListener proto port cb f item k i sl s)) = nextNode s"
  "mp4Info (snd (useListener proto port cb f item k i sl s)) = mp4Info s"
  "tasks (snd (useListener proto port cb f item k i sl s)) = tasks s"
  "precreate (snd (useListener proto port cb f item k i sl s)) = precreate s"
  "exited (snd (useListener proto port cb f item k i sl s)) = exited s"
  "rejections (snd (useListener proto port cb f item k i sl s)) = rejections s"
  "switchCalls (snd (useListener proto port cb f item k i sl s)) = switchCalls s"
  "closeCalls (snd (useListener proto port cb f item k i sl s)) = closeCalls s"
  by (simp_all add: useListener_def Let_def split: option.splits)

lemma createNode_frame [simp]:
  "playlist (snd (createNode item c i sl s)) = playlist s"
  "transitionDuration (snd (createNode item c i sl s)) = transitionDuration s"
  "sourceIndex (snd (createNode item c i sl s)) = sourceIndex s"
  "playing_prev (snd (createNode item c i sl s)) = playing_prev s"
  "playing (snd (createNode item c i sl s)) = playing s"
  "timeouts (snd (createNode item c i sl s)) = timeouts s"
  "timers (snd (createNode item c i sl s)) = timers s"
  "nextTimer (snd (createNode item c i sl s)) = nextTimer s"
  "nodes (snd (createNode item c i sl s)) = nodes s"
  "rejectedRequests (snd (createNode item c i sl s)) = rejectedRequests s"
  "mp4Info (snd (createNode item c i sl s)) = mp4Info s"
  "tasks (snd (createNode item c i sl s)) = tasks s"
  "precreate (snd (createNode item c i sl s)) = precreate s"
  "exited (snd (createNode item c i sl s)) = exited s"
  "rejections (snd (createNode item c i sl s)) = rejections s"
  "switchCalls (snd (createNode item c i sl s)) = switchCalls s"
  "closeCalls (snd (createNode item c i sl s)) = closeCalls s"
  by (simp_all add: createNode_def Let_def split: PlaylistSource.splits)

lemma engineCreated_frame [simp]:
  "playlist (engineCreated r s) = playlist s"
  "transitionDuration (engineCreated r s) = transitionDuration s"
  "sourceIndex (engineCreated r s) = sourceIndex s"
  "playing_prev (engineCreated r s) = playing_prev s"
  "playing (engineCreated r s) = playing s"
  "timeouts (engineCreated r s) = timeouts s"
  "srtListeners (engineCreated r s) = srtListeners s"
  "rtmpListeners (engineCreated r s) = rtmpListeners s"
  "timers (engineCreated r s) = timers s"
  "nextTimer (engineCreated r s) = nextTimer s"
  "rejectedRequests (engineCreated r s) = rejectedRequests s"
  "nextNode (engineCreated r s) = nextNode s"
  "mp4Info (engineCreated r s) = mp4Info s"
  "tasks (engineCreated r s) = tasks s"
  "precreate (engineCreated r s) = precreate s"
  "exited (engineCreated r s) = exited s"
  "rejections (engineCreated r s) = rejections s"
  "switchCalls (engineCreated r s) = switchCalls s"
  "closeCalls (engineCreated r s) = closeCalls s"
  by (simp_all add: engineCreated_def split: option.splits)

lemma engineFailed_frame [simp]:
  "playlist (engineFailed r s) = playlist s"
  "transitionDuration (engineFailed r s) = transitionDuration s"
  "sourceIndex (engineFailed r s) = sourceIndex s"
  "playing_prev (engineFailed r s) = playing_prev s"
  "playing_current (engineFailed r s) = playing_current s"
  "playing_next (engineFailed r s) = playing_next s"
  "playing (engineFailed r s) = playing s"
  "timeouts (engineFailed r s) = timeouts s"
  "srtListeners (engineFailed r s) = srtListeners s"
  "rtmpListeners (engineFailed r s) = rtmpListeners s"
  "store (engineFailed r s) = store s"
  "nextAddr (engineFailed r s) = nextAddr s"
  "timers (engineFailed r s) = timers s"
  "nextTimer (engineFailed r s) = nextTimer s"
  "nodes (engineFailed r s) = nodes s"
  "nextNode (engineFailed r s) = nextNode s"
  "mp4Info (engineFailed r s) = mp4Info s"
  "tasks (engineFailed r s) = tasks s"
  "precreate (engineFailed r s) = precreate s"
  "exited (engineFailed r s) = exited s"
  "rejections (engineFailed r s) = rejections s"
  "switcherSubs (engineFailed r s) = switcherSubs s"
  "switchCalls (engineFailed r s) = switchCalls s"
  "closeCalls (engineFailed r s) = closeCalls s"
  by (simp_all add: engineFailed_def split: option.splits)

lemma reject_frame [simp]:
  "playlist (reject e s) = playlist s"
  "transitionDuration (reject e s) = transitionDuration s"
  "sourceIndex (reject e s) = sourceIndex s"
  "playing_prev (reject e s) = playing_prev s"
  "playing_current (reject e s) = playing_current s"
  "playing_next (reject e s) = playing_next s"
  "playing (reject e s) = playing s"
  "timeouts (reject e s) = timeouts s"
  "srtListeners (reject e s) = srtListeners s"
  "rtmpListeners (reject e s) = rtmpListeners s"
  "store (reject e s) = store s"
  "nextAddr (reject e s) = nextAddr s"
  "timers (reject e s) = timers s"
  "nextTimer (reject e s) = nextTimer s"
  "requests (reject e s) = requests s"
  "nodes (reject e s) = nodes s"
  "rejectedRequests (reject e s) = rejectedRequests s"
  "nextNode (reject e s) = nextNode s"
  "mp4Info (reject e s) = mp4Info s"
  "tasks (reject e s) = tasks s"
  "precreate (reject e s) = precreate s"
  "exited (reject e s) = exited s"
  "switcherSubs (reject e s) = switcherSubs s"
  "switchCalls (reject e s) = switchCalls s"
  "closeCalls (reject e s) = closeCalls s"
  by (simp_all add: reject_def)

lemma suspend_frame [simp]:
  "playlist (suspend t s) = playlist s"
  "transitionDuration (suspend t s) = transitionDuration s"
  "sourceIndex (suspend t s) = sourceIndex s"
  "playing_prev (suspend t s) = playing_prev s"
  "playing_current (suspend t s) = playing_current s"
  "playing_next (suspend t s) = playing_next s"
  "playing (suspend t s) = playing s"
  "timeouts (suspend t s) = timeouts s"
  "srtListeners (suspend t s) = srtListeners s"
  "rtmpListeners (suspend t s) = rtmpListeners s"
  "store (suspend t s) = store s"
  "nextAddr (suspend t s) = nextAddr s"
  "timers (suspend t s) = timers s"
  "nextTimer (suspend t s) = nextTimer s"
  "requests (suspend t s) = requests s"
  "nodes (suspend t s) = nodes s"
  "rejectedRequests (suspend t s) = rejectedRequests s"
  "nextNode (suspend t s) = nextNode s"
  "mp4Info (suspend t s) = mp4Info s"
  "precreate (suspend t s) = precreate s"
  "exited (suspend t s) = exited s"
  "rejections (suspend t s) = rejections s"
  "switcherSubs (suspend t s) = switcherSubs s"
  "switchCalls (suspend t s) = switchCalls s"
  "closeCalls (suspend t s) = closeCalls s"
  by (simp_all add: suspend_def)

lemma scheduleDuration_frame [simp]:
  "playlist (scheduleDuration c s) = playlist s"
  "transitionDuration (scheduleDuration c s) = transitionDuration s"
  "sourceIndex (scheduleDuration c s) = sourceIndex s"
  "playing_prev (scheduleDuration c s) = playing_prev s"
  "playing_current (scheduleDuration c s) = playing_current s"
  "playing_next (scheduleDuration c s) = playing_next s"
  "playing (scheduleDuration c s) = playing s"
  "srtListeners (scheduleDuration c s) = srtListeners s"
  "rtmpListeners (scheduleDuration c s) = rtmpListeners s"
  "store (scheduleDuration c s) = store s"
  "nextAddr (scheduleDuration c s) = nextAddr s"
  "requests (scheduleDuration c s) = requests s"
  "nodes (scheduleDuration c s) = nodes s"
  "rejectedRequests (scheduleDuration c s) = rejectedRequests s"
  "nextNode (scheduleDuration c s) = nextNode s"
  "mp4Info (scheduleDuration c s) = mp4Info s"
  "tasks (scheduleDuration c s) = tasks s"
  "precreate (scheduleDuration c s) = precreate s"
  "exited (scheduleDuration c s) = exited s"
  "rejections (scheduleDuration c s) = rejections s"
  "switcherSubs (scheduleDuration c s) = switcherSubs s"
  "switchCalls (scheduleDuration c s) = switchCalls s"
  "closeCalls (scheduleDuration c s) = closeCalls s"
  by (simp_all add: scheduleDuration_def Let_def split: option.splits)

lemma prewarm_frame [simp]:
  "playlist (prewarm c s) = playlist s"
  "transitionDuration (prewarm c s) = transitionDuration s"
  "sourceIndex (prewarm c s) = sourceIndex s"
  "playing_prev (prewarm c s) = playing_prev s"
  "playing (prewarm c s) = playing s"
  "timeouts (prewarm c s) = timeouts s"
  "timers (prewarm c s) = timers s"
  "nextTimer (prewarm c s) = nextTimer s"
  "nodes (prewarm c s) = nodes s"
  "rejectedRequests (prewarm c s) = rejectedRequests s"
  "mp4Info (prewarm c s) = mp4Info s"
  "precreate (prewarm c s) = precreate s"
  "exited (prewarm c s) = exited s"
  "rejections (prewarm c s) = rejections s"
  "switchCalls (prewarm c s) = switchCalls s"
  "closeCalls (prewarm c s) = closeCalls s"
  by (simp_all add: prewarm_def Let_def case_prod_beta)

lemma update_tail_frame [simp]:
  "playlist (update_tail c s) = playlist s"
  "transitionDuration (update_tail c s) = transitionDuration s"
  "sourceIndex (update_tail c s) = sourceIndex s"
  "playing_prev (update_tail c s) = playing_prev s"
  "playing (update_tail c s) = playing s"
  "nodes (update_tail c s) = nodes s"
  "rejectedRequests (update_tail c s) = rejectedRequests s"
  "mp4Info (update_tail c s) = mp4Info s"
  "precreate (update_tail c s) = precreate s"
  "exited (update_tail c s) = exited s"
  "rejections (update_tail c s) = rejections s"
  "switchCalls (update_tail c s) = switchCalls s"
  "closeCalls (update_tail c s) = closeCalls s"
  by (simp_all add: update_tail_def)

lemma writeBack_frame [simp]:
  "playlist (writeBack slot d cn s) = playlist s"
  "transitionDuration (writeBack slot d cn s) = transitionDuration s"
  "sourceIndex (writeBack slot d cn s) = sourceIndex s"
  "playing_prev (writeBack slot d cn s) = playing_prev s"
  "playing_current (writeBack slot d cn s) = playing_current s"
  "playing_next (writeBack slot d cn s) = playing_next s"
  "playing (writeBack slot d cn s) = playing s"
  "timeouts (writeBack slot d cn s) = timeouts s"
  "srtListeners (writeBack slot d cn s) = srtListeners s"
  "rtmpListeners (writeBack slot d cn s) = rtmpListeners s"
  "nextAddr (writeBack slot d cn s) = nextAddr s"
  "timers (writeBack slot d cn s) = timers s"
  "nextTimer (writeBack slot d cn s) = nextTimer s"
  "requests (writeBack slot d cn s) = requests s"
  "nodes (writeBack slot d cn s) = nodes s"
  "rejectedRequests (writeBack slot d cn s) = rejectedRequests s"
  "nextNode (writeBack slot d cn s) = nextNode s"
  "mp4Info (writeBack slot d cn s) = mp4Info s"
  "tasks (writeBack slot d cn s) = tasks s"
  "precreate (writeBack slot d cn s) = precreate s"
  "exited (writeBack slot d cn s) = exited s"
  "rejections (writeBack slot d cn s) = rejections s"
  "switcherSubs (writeBack slot d cn s) = switcherSubs s"
  "switchCalls (writeBack slot d cn s) = switchCalls s"
  "closeCalls (writeBack slot d cn s) = closeCalls s"
  by (simp_all add: writeBack_def split: option.splits)

lemma afterDuration_frame [simp]:
  "playlist (afterDuration slot c cn d s) = playlist s"
  "transitionDuration (afterDuration slot c cn d s) = transitionDuration s"
  "sourceIndex (afterDuration slot c cn d s) = sourceIndex s"
  "playing_prev (afterDuration slot c cn d s) = playing_prev s"
  "playing (afterDuration slot c cn d s) = playing s"
  "nodes (afterDuration slot c cn d s) = nodes s"
  "rejectedRequests (afterDuration slot c cn d s) = rejectedRequests s"
  "mp4Info (afterDuration slot c cn d s) = mp4Info s"
  "precreate (afterDuration slot c cn d s) = precreate s"
  "exited (afterDuration slot c cn d s) = exited s"
  "switchCalls (afterDuration slot c cn d s) = switchCalls s"
  "closeCalls (afterDuration slot c cn d s) = closeCalls s"
  by (cases slot; simp split: option.splits)+

lemma afterCreate_frame [simp]:
  "playlist (afterCreate slot c item cn dur s) = playlist s"
  "transitionDuration (afterCreate slot c item cn dur s) = transitionDuration s"
  "sourceIndex (afterCreate slot c item cn dur s) = sourceIndex s"
  "playing_prev (afterCreate slot c item cn dur s) = playing_prev s"
  "playing (afterCreate slot c item cn dur s) = playing s"
  "nodes (afterCreate slot c item cn dur s) = nodes s"
  "rejectedRequests (afterCreate slot c item cn dur s) = rejectedRequests s"
  "mp4Info (afterCreate slot c item cn dur s) = mp4Info s"
  "precreate (afterCreate slot c item cn dur s) = precreate s"
  "exited (afterCreate slot c item cn dur s) = exited s"
  "switchCalls (afterCreate slot c item cn dur s) = switchCalls s"
  "closeCalls (afterCreate slot c item cn dur s) = closeCalls s"
  by (simp_all add: afterCreate_def)

lemma update_frame [simp]:
  "playlist (update s) = playlist s"
  "transitionDuration (update s) = transitionDuration s"
  "nodes (update s) = nodes s"
  "rejectedRequests (update s) = rejectedRequests s"
  "mp4Info (update s) = mp4Info s"
  "precreate (update s) = precreate s"
  "rejections (update s) = rejections s"
  "switchCalls (update s) = switchCalls s"
  "closeCalls (update s) = closeCalls s"
  by (simp_all add: update_def Let_def case_prod_beta split: option.splits)

lemma beginListener_frame [simp]:
  "playlist (beginListener proto port ident rest s) = playlist s"
  "transitionDuration (beginListener proto port ident rest s) = transitionDuration s"
  "sourceIndex (beginListener proto port ident rest s) = sourceIndex s"
  "playing_prev (beginListener proto port ident rest s) = playing_prev s"
  "playing_current (beginListener proto port ident rest s) = playing_current s"
  "playing_next (beginListener proto port ident rest s) = playing_next s"
  "playing (beginListener proto port ident rest s) = playing s"
  "timeouts (beginListener proto port ident rest s) = timeouts s"
  "srtListeners (beginListener proto port ident rest s) = srtListeners s"
  "rtmpListeners (beginListener proto port ident rest s) = rtmpListeners s"
  "store (beginListener proto port ident rest s) = store s"
  "nextAddr (beginListener proto port ident rest s) = nextAddr s"
  "timers (beginListener proto port ident rest s) = timers s"
  "nextTimer (beginListener proto port ident rest s) = nextTimer s"
  "requests (beginListener proto port ident rest s) = requests s"
  "nodes (beginListener proto port ident rest s) = nodes s"
  "rejectedRequests (beginListener proto port ident rest s) = rejectedRequests s"
  "mp4Info (beginListener proto port ident rest s) = mp4Info s"
  "tasks (beginListener proto port ident rest s) = tasks s"
  "exited (beginListener proto port ident rest s) = exited s"
  "rejections (beginListener proto port ident rest s) = rejections s"
  "switcherSubs (beginListener proto port ident rest s) = switcherSubs s"
  "switchCalls (beginListener proto port ident rest s) = switchCalls s"
  "closeCalls (beginListener proto port ident rest s) = closeCalls s"
  by (simp_all add: beginListener_def)

subsection \<open>The stream selector of a slot\<close>

lemma length_take1: "(1 \<le> length (take 1 xs)) = (xs \<noteq> [])"
  by (cases xs) simp_all

lemma length_keys: "(1 \<le> length (take 1 xs @ take 1 ys)) = (xs \<noteq> [] \<or> ys \<noteq> [])"
  by (cases xs; cases ys) simp_all

lemma selectStreams_result:
  "fst (selectStreams idx f kind st streams t) =
     (if filter (streamKeyFilter f) (audioStreamKeys streams) = []
         \<and> filter (streamKeyFilter f) (videoStreamKeys streams) = [] then None
      else Some [(toString idx, take 1 (filter (streamKeyFilter f) (audioStreamKeys streams))
                                @ take 1 (filter (streamKeyFilter f) (videoStreamKeys streams)))])"
  unfolding selectStreams_def Let_def fst_conv length_keys by simp

lemma selectStreams_ready:
  assumes "store t st = Some p"
  shows "map_option pi_ready (store (snd (selectStreams idx f kind st streams t)) st) =
     Some ((kind = Video \<or> filter (streamKeyFilter f) (audioStreamKeys streams) \<noteq> [])
           \<and> filter (streamKeyFilter f) (videoStreamKeys streams) \<noteq> [])"
  unfolding selectStreams_def Let_def snd_conv length_take1
  by (simp add: store_setReady [OF assms])

lemma subscribeToNode_slot:
  "(case slot of SlotCurrent \<Rightarrow> playing_current (subscribeToNode idx slot info s)
               | SlotNext \<Rightarrow> playing_next (subscribeToNode idx slot info s)) = Some (nextAddr s)"
  by (simp add: subscribeToNode_def setSlot_def refreshSubs_def Let_def split: SlotName.splits)

lemma subscribeToNode_sub:
  "map_option pi_sub (store (subscribeToNode idx slot info s) (nextAddr s)) =
     Some (Some \<lparr>sub_source = InputNode (ici_node info),
                 sub_sourceSelector =
                   SelectStreams idx (ici_streamKeyFilter info) (ici_kind info) (nextAddr s)\<rparr>)"
  by (simp add: subscribeToNode_def setSlot_def refreshSubs_def Let_def split: SlotName.splits)

text \<open>
  C1. \<^verbatim>\<open>subscribeToNode(index, slot)\<close>, called with the creation info, puts a new playing
  item into the slot, with a subscription on the node. In any later state \<open>t\<close> (the item is
  still in the store), that subscription's selector, given any streams, keeps the first audio
  key and the first video key that pass the item's \<^verbatim>\<open>streamKeyFilter\<close>; it returns the
  mapping from the pin \<^verbatim>\<open>index.toString()\<close> to the audio key followed by the video key when
  there is at least one of them, and nothing otherwise; and it leaves the item's \<^verbatim>\<open>ready\<close>
  flag true exactly when (the kind is video or an audio key is there) and a video key is
  there.
\<close>

theorem selector_of_subscribeToNode:
  assumes "store t (nextAddr s) \<noteq> None"
  shows "let s' = subscribeToNode idx slot info s;
             a = nextAddr s;
             audio = filter (streamKeyFilter (ici_streamKeyFilter info)) (audioStreamKeys streams);
             video = filter (streamKeyFilter (ici_streamKeyFilter info)) (videoStreamKeys streams)
         in (case slot of SlotCurrent \<Rightarrow> playing_current s' | SlotNext \<Rightarrow> playing_next s') = Some a
          \<and> (\<exists>sel. map_option pi_sub (store s' a)
                      = Some (Some \<lparr>sub_source = InputNode (ici_node info), sub_sourceSelector = sel\<rparr>)
               \<and> fst (sourceSelector sel streams t)
                   = (if audio = [] \<and> video = [] then None
                      else Some [(toString idx, take 1 audio @ take 1 video)])
               \<and> map_option pi_ready (store (snd (sourceSelector sel streams t)) a)
                   = Some ((ici_kind info = Video \<or> audio \<noteq> []) \<and> video \<noteq> []))"
proof -
  from assms obtain p where p: "store t (nextAddr s) = Some p" by auto
  let ?sel = "SelectStreams idx (ici_streamKeyFilter info) (ici_kind info) (nextAddr s)"
  have sel: "sourceSelector ?sel streams t
               = selectStreams idx (ici_streamKeyFilter info) (ici_kind info) (nextAddr s) streams t"
    by simp
  show ?thesis
    unfolding Let_def
    using subscribeToNode_slot [where slot = slot and idx = idx and info = info and s = s]
      subscribeToNode_sub [where slot = slot and idx = idx and info = info and s = s]
      selectStreams_result [of idx "ici_streamKeyFilter info" "ici_kind info" "nextAddr s" streams t]
      selectStreams_ready [OF p, of idx "ici_streamKeyFilter info" "ici_kind info" streams]
    unfolding sel [symmetric]
    by blast
qed

theorem selector_of_subscribeToNode_witness:
  "store (subscribeToNode 3 SlotNext info0 (Playlist_new [] None)) (nextAddr (Playlist_new [] None)) \<noteq> None
   \<and> (\<exists>sel. map_option pi_sub (store (subscribeToNode 3 SlotNext info0 (Playlist_new [] None)) 0)
               = Some (Some \<lparr>sub_source = InputNode 0, sub_sourceSelector = sel\<rparr>)
        \<and> fst (sourceSelector sel [\<lparr>streamKey = key0, mediaType = VideoMedia\<rparr>]
                 (subscribeToNode 3 SlotNext info0 (Playlist_new [] None)))
            = Some [(''3'', [key0])]
        \<and> map_option pi_ready
            (store (snd (sourceSelector sel [\<lparr>streamKey = key0, mediaType = VideoMedia\<rparr>]
                           (subscribeToNode 3 SlotNext info0 (Playlist_new [] None)))) 0)
            = Some False)"
proof -
  have h: "store (subscribeToNode 3 SlotNext info0 (Playlist_new [] None))
             (nextAddr (Playlist_new [] None)) \<noteq> None"
    by (simp add: subscribeToNode_def Playlist_new_def setSlot_def Let_def)
  have n: "nextAddr (Playlist_new [] None) = 0"
    by (simp add: Playlist_new_def)
  have t: "toString 3 = ''3''"
    by (simp add: toString.simps digitChar_def)
  show ?thesis
    using h selector_of_subscribeToNode [OF h, of 3 SlotNext info0
        "[\<lparr>streamKey = key0, mediaType = VideoMedia\<rparr>]"]
    unfolding Let_def n
    by (simp add: info0_def audioStreamKeys_def videoStreamKeys_def t)
qed

subsection \<open>Advancing\<close>

lemma sourceIndex_update: "sourceIndex (update s) = Suc (sourceIndex s)"
  by (simp add: update_def Let_def case_prod_beta split: option.splits)

lemma exited_update: "exited (update s) = (exited s \<or> length (playlist s) \<le> sourceIndex s)"
  by (simp add: update_def Let_def case_prod_beta split: option.splits)

text \<open>
  C8. A call of \<^verbatim>\<open>switch()\<close> runs \<^verbatim>\<open>update()\<close> up to its first suspension, and in that
  stretch \<^verbatim>\<open>sourceIndex\<close> goes up by exactly one. So two calls in a row, with nothing
  resumed in between, move the playlist position by exactly two (the process is running and
  the position is inside the playlist).
\<close>

theorem switch_twice_advances_two:
  assumes "\<not> exited s" and "sourceIndex s < length (playlist s)"
  shows "sourceIndex (step Switch s) = sourceIndex s + 1
       \<and> \<not> exited (step Switch s)
       \<and> sourceIndex (run [Switch, Switch] s) = sourceIndex s + 2"
  using assms by (simp add: step_def sourceIndex_update exited_update)

theorem switch_twice_advances_two_witness:
  "\<not> exited (Playlist_create [tsFile, rtpItem, tsFile] None)
   \<and> sourceIndex (Playlist_create [tsFile, rtpItem, tsFile] None)
       < length (playlist (Playlist_create [tsFile, rtpItem, tsFile] None))
   \<and> sourceIndex (run [Switch, Switch] (Playlist_create [tsFile, rtpItem, tsFile] None)) = 2"
proof -
  have e: "\<not> exited (Playlist_create [tsFile, rtpItem, tsFile] None)"
    by (simp add: Playlist_create_def Playlist_new_def tsFile_def rtpItem_def)
  have i: "sourceIndex (Playlist_create [tsFile, rtpItem, tsFile] None) = 0"
    by (simp add: Playlist_create_def Playlist_new_def tsFile_def rtpItem_def)
  have l: "sourceIndex (Playlist_create [tsFile, rtpItem, tsFile] None)
             < length (playlist (Playlist_create [tsFile, rtpItem, tsFile] None))"
    by (simp add: Playlist_create_def Playlist_new_def tsFile_def rtpItem_def)
  show ?thesis
    using e l switch_twice_advances_two [OF e l] by (simp add: i)
qed

subsection \<open>Shared listeners in the factory\<close>

lemma useListener_missing:
  "listenerNodeOf proto port s = None \<Longrightarrow>
   useListener proto port cb f item k i sl s = (Rejected (NoListener proto port), s)"
  by (simp add: useListener_def listenerNodeOf_def split: option.splits)

lemma createNode_missing:
  assumes "listenerItem (item_source item) = Some (proto, port)"
      and "listenerNodeOf proto port s = None"
  shows "createNode item c idx slot s = (Rejected (NoListener proto port), s)"
  using assms
  by (auto simp: createNode_def listenerItem_def Let_def useListener_missing
           split: PlaylistSource.splits if_splits)

lemma listenerOf_frames [simp]:
  "listenerOf proto port (clearTimeouts ts s) = listenerOf proto port s"
  "listenerOf proto port (scheduleDuration c s) = listenerOf proto port s"
  "listenerOf proto port (suspend t s) = listenerOf proto port s"
  "listenerOf proto port (s\<lparr>sourceIndex := i\<rparr>) = listenerOf proto port s"
  "listenerOf proto port (s\<lparr>playing_prev := x\<rparr>) = listenerOf proto port s"
  "listenerOf proto port (s\<lparr>tasks := ts'\<rparr>) = listenerOf proto port s"
  by (simp_all add: listenerOf_def split: Proto.splits)

lemma listenerItem_isLive: "listenerItem src = Some x \<Longrightarrow> isLive src"
  by (cases src) (simp_all add: listenerItem_def)

lemma update_missing:
  assumes "listenerItem (item_source item) = Some (proto, port)"
      and "listenerNodeOf proto port s = None"
      and "sourceIndex s < length (playlist s)" and "playing_next s = None"
      and "playlist s ! sourceIndex s = item"
  shows "update s =
           suspend (AwaitCreate SlotCurrent (sourceIndex s) item (Rejected (NoListener proto port)))
             ((clearTimeouts (timeouts s) s)
                \<lparr>sourceIndex := Suc (sourceIndex s), playing_prev := playing_current s\<rparr>)"
proof -
  let ?s3 = "(clearTimeouts (timeouts s) s)
               \<lparr>sourceIndex := Suc (sourceIndex s), playing_prev := playing_current s\<rparr>"
  have "listenerNodeOf proto port ?s3 = None"
    using assms(2) by (simp add: listenerNodeOf_def)
  from createNode_missing [OF assms(1) this]
  show ?thesis
    using assms(3-5) by (simp add: update_def Let_def)
qed

lemma update_tail_missing:
  assumes "listenerItem (item_source item) = Some (proto, port)"
      and "listenerNodeOf proto port s = None"
      and "c + 1 < length (playlist s)" and "playlist s ! (c + 1) = item"
  shows "update_tail c s =
           suspend (AwaitCreate SlotNext c item (Rejected (NoListener proto port)))
             (scheduleDuration c s)"
proof -
  have "listenerNodeOf proto port (scheduleDuration c s) = None"
    using assms(2) by (simp add: listenerNodeOf_def)
  from createNode_missing [OF assms(1) this]
  show ?thesis
    using assms(3,4) listenerItem_isLive [OF assms(1)]
    by (simp add: update_tail_def prewarm_def Let_def)
qed

lemma resume_last:
  "handle (Resume (length (tasks s))) (suspend t s) =
     (case resumeTask t s of None \<Rightarrow> suspend t s | Some s1 \<Rightarrow> s1)"
  by (simp add: suspend_def split: option.splits)

text \<open>
  C7. An item that uses a shared listener (SRT in listener mode, or RTMP) on a port where no
  listener node is registered: \<^verbatim>\<open>createNode\<close> throws at once and leaves the whole state as
  it was (no engine request, no slot, no registry entry). When \<^verbatim>\<open>update()\<close> reaches the
  factory with such an item, for the current slot or while prewarming the next one, the
  invocation ends as soon as it resumes, rejected with that error, and nothing else happens.
\<close>

theorem missing_listener_raises:
  assumes "listenerItem (item_source item) = Some (proto, port)"
      and "listenerNodeOf proto port s = None"
  shows "createNode item c idx slot s = (Rejected (NoListener proto port), s)
       \<and> (\<not> exited s \<and> sourceIndex s < length (playlist s) \<and> playing_next s = None
            \<and> playlist s ! sourceIndex s = item \<longrightarrow>
          run [Switch, Resume (length (tasks s))] s =
            reject (NoListener proto port)
              ((clearTimeouts (timeouts s) s)
                 \<lparr>sourceIndex := Suc (sourceIndex s), playing_prev := playing_current s\<rparr>))
       \<and> (\<not> exited s \<and> c + 1 < length (playlist s) \<and> playlist s ! (c + 1) = item \<longrightarrow>
          step (Resume (length (tasks s))) (update_tail c s) =
            reject (NoListener proto port) (scheduleDuration c s))"
proof (intro conjI impI)
  show "createNode item c idx slot s = (Rejected (NoListener proto port), s)"
    by (rule createNode_missing [OF assms])
next
  assume h: "\<not> exited s \<and> sourceIndex s < length (playlist s) \<and> playing_next s = None
               \<and> playlist s ! sourceIndex s = item"
  let ?s3 = "(clearTimeouts (timeouts s) s)
               \<lparr>sourceIndex := Suc (sourceIndex s), playing_prev := playing_current s\<rparr>"
  have u: "update s =
             suspend (AwaitCreate SlotCurrent (sourceIndex s) item (Rejected (NoListener proto port))) ?s3"
    using update_missing [OF assms] h by simp
  have t: "tasks ?s3 = tasks s" by simp
  have e: "\<not> exited (update s)"
    using h by (simp add: exited_update)
  have "handle (Resume (length (tasks s))) (update s) = reject (NoListener proto port) ?s3"
    unfolding u using resume_last [of ?s3] unfolding t
    by (simp add: awaitResult_def)
  then show "run [Switch, Resume (length (tasks s))] s = reject (NoListener proto port) ?s3"
    using h e by (simp add: step_def)
next
  assume h: "\<not> exited s \<and> c + 1 < length (playlist s) \<and> playlist s ! (c + 1) = item"
  have u: "update_tail c s =
             suspend (AwaitCreate SlotNext c item (Rejected (NoListener proto port)))
               (scheduleDuration c s)"
    using update_tail_missing [OF assms] h by simp
  have t: "tasks (scheduleDuration c s) = tasks s" by simp
  have e: "\<not> exited (update_tail c s)"
    using h by simp
  have "handle (Resume (length (tasks s))) (update_tail c s)
          = reject (NoListener proto port) (scheduleDuration c s)"
    unfolding u using resume_last [of "scheduleDuration c s"] unfolding t
    by (simp add: awaitResult_def)
  then show "step (Resume (length (tasks s))) (update_tail c s)
               = reject (NoListener proto port) (scheduleDuration c s)"
    using e by (simp add: step_def)
qed

theorem missing_listener_raises_witness:
  "listenerItem (item_source srtListenerItem) = Some (ProtoSrt, 5000)
   \<and> listenerNodeOf ProtoSrt 5000 (Playlist_new [srtListenerItem, srtListenerItem] None) = None
   \<and> rejections (run [Switch, Resume 0] (Playlist_new [srtListenerItem, srtListenerItem] None))
       = [NoListener ProtoSrt 5000]
   \<and> rejections (step (Resume 0)
                   (update_tail 0 (Playlist_new [srtListenerItem, srtListenerItem] None)))
       = [NoListener ProtoSrt 5000]"
proof -
  let ?s = "Playlist_new [srtListenerItem, srtListenerItem] None"
  have a: "listenerItem (item_source srtListenerItem) = Some (ProtoSrt, 5000)"
    by (simp add: listenerItem_def srtListenerItem_def)
  have b: "listenerNodeOf ProtoSrt 5000 ?s = None"
    by (simp add: listenerNodeOf_def listenerOf_def Playlist_new_def)
  have c: "\<not> exited ?s \<and> sourceIndex ?s < length (playlist ?s) \<and> playing_next ?s = None
             \<and> playlist ?s ! sourceIndex ?s = srtListenerItem"
    by (simp add: Playlist_new_def)
  have d: "\<not> exited ?s \<and> 0 + 1 < length (playlist ?s) \<and> playlist ?s ! (0 + 1) = srtListenerItem"
    by (simp add: Playlist_new_def)
  have t: "length (tasks ?s) = 0" "rejections ?s = []"
    by (simp_all add: Playlist_new_def)
  show ?thesis
    using a b c d missing_listener_raises [OF a b, of 0 0 SlotCurrent]
    by (simp add: t reject_def)
qed

lemma rtmpSourceName_unset:
  "\<not> (truthyString app \<and> truthyString stream) \<Longrightarrow> rtmpSourceName app stream = None"
  by (cases app; cases stream) (auto simp: rtmpSourceName_def)

lemma callbackAt_attach:
  "listenerOf proto port s = Some l \<Longrightarrow> callbackAt proto port k (attach proto port k cb s) = Some cb"
  by (cases proto) (simp_all add: callbackAt_def attach_def listenerOf_def setListener_def)

lemma callbackAt_subscribeToNode [simp]:
  "callbackAt proto port k (subscribeToNode idx sl info s) = callbackAt proto port k s"
  by (cases proto) (simp_all add: callbackAt_def listenerOf_def)

lemma callbackAt_useListener:
  assumes "listenerNodeOf proto port s = Some n"
  shows "callbackAt proto port k (snd (useListener proto port cb f item k i sl s)) = Some cb"
proof -
  from assms obtain l where l: "listenerOf proto port s = Some l" and n: "ln_node l = Some n"
    by (auto simp: listenerNodeOf_def split: option.splits)
  show ?thesis
    by (simp add: useListener_def l n Let_def callbackAt_attach [OF l])
qed

text \<open>
  When every callback registered on the RTMP listener of a port is one without a source name,
  the fan-out of a disconnect changes nothing, whichever keys it reaches.
\<close>

lemma nameless_step:
  assumes "\<forall>k' cb. callbackAt ProtoRtmp port k' t = Some cb \<longrightarrow> (\<exists>nodeId. cb = RtmpDisconnect nodeId None)"
  shows "step (Disconnect ProtoRtmp port k name) t = t"
proof (cases "callbackAt ProtoRtmp port k t")
  case None
  then show ?thesis
    by (auto simp: step_def callbackAt_def split: option.splits)
next
  case (Some cb)
  with assms obtain nodeId where "cb = RtmpDisconnect nodeId None" by blast
  with Some show ?thesis
    by (auto simp: step_def callbackAt_def split: option.splits)
qed

lemma nameless_fanout:
  assumes "\<forall>k' cb. callbackAt ProtoRtmp port k' t = Some cb \<longrightarrow> (\<exists>nodeId. cb = RtmpDisconnect nodeId None)"
  shows "run (map (\<lambda>k'. Disconnect ProtoRtmp port k' name) ks) t = t"
  by (induction ks) (simp_all add: nameless_step [OF assms])

text \<open>
  C10, as the claim states it, fails. An RTMP item \<^verbatim>\<open>a/1\<close>, a file, an RTMP item without a
  name and a file, all RTMP on port 1935, in a run in which no two invocations of \<^verbatim>\<open>update()\<close>
  overlap. The item without a name is current, and the callback that item 0 left under
  \<^verbatim>\<open>input-0\<close> is still registered on the listener. When the publisher of \<^verbatim>\<open>a/1\<close>
  disconnects, the fan-out reaches that callback, which calls \<^verbatim>\<open>update()\<close>: \<^verbatim>\<open>sourceIndex\<close>
  moves from 3 to 4, past the item without a name.
\<close>

theorem rtmp_without_name_counterexample:
  "map_option item_source
     (map_option pi_item (lookupItem namelessCurrent (playing_current namelessCurrent)))
     = Some (Rtmp 1935 None None)
   \<and> idxOf namelessCurrent (playing_current namelessCurrent) = Some 2
   \<and> tasks namelessCurrent = []
   \<and> sourceIndex namelessCurrent = 3
   \<and> callbackAt ProtoRtmp 1935 ''input-1'' namelessCurrent = Some (RtmpDisconnect ''input-1'' None)
   \<and> callbackAt ProtoRtmp 1935 ''input-0'' namelessCurrent
       = Some (RtmpDisconnect ''input-0'' (Some ''a/1''))
   \<and> sourceIndex (step (Disconnect ProtoRtmp 1935 ''input-0'' ''a/1'') namelessCurrent) = 4
   \<and> \<not> exited (step (Disconnect ProtoRtmp 1935 ''input-0'' ''a/1'') namelessCurrent)
   \<and> map_option sourceIndex
       (runSerial (namelessCurrentEvents @ [Disconnect ProtoRtmp 1935 ''input-0'' ''a/1''])
          (Playlist_create [rtmpNamedItem, tsFile, rtmpItem, tsFile] None)) = Some 4"
  by (simp add: model_defs namelessCurrent_def namelessCurrentEvents_def rtmpNamedItem_def
        tsFile_def rtmpItem_def idxOf_def callbackAt_def)

text \<open>
  C10, amended. An RTMP item in which \<^verbatim>\<open>app\<close> and \<^verbatim>\<open>stream\<close> are not both set (or one of
  them is the empty string): the factory registers, under the node id, a callback whose
  \<^verbatim>\<open>sourceName\<close> is undefined. Called with any source name, in any state, that callback does
  nothing: it does not call \<^verbatim>\<open>update()\<close> and does not remove itself. So when the listener's
  fan-out reaches it, the state, and with it \<^verbatim>\<open>sourceIndex\<close>, stays as it is. And in a state
  in which every callback registered on the listener of that port is of this kind, a whole
  fan-out, over any keys, leaves the state as it is.
\<close>

theorem rtmp_without_name_never_advances:
  assumes "item_source item = Rtmp port app stream"
      and "\<not> (truthyString app \<and> truthyString stream)"
      and "listenerNodeOf ProtoRtmp port s = Some n"
  shows "callbackAt ProtoRtmp port (nodeIdOf c) (snd (createNode item c idx slot s))
           = Some (RtmpDisconnect (nodeIdOf c) None)
       \<and> runDisconnectCb ProtoRtmp port (RtmpDisconnect (nodeIdOf c) None) name t = t
       \<and> (callbackAt ProtoRtmp port k t = Some (RtmpDisconnect (nodeIdOf c) None) \<longrightarrow>
            step (Disconnect ProtoRtmp port k name) t = t)
       \<and> ((\<forall>k' cb. callbackAt ProtoRtmp port k' t = Some cb \<longrightarrow>
                     (\<exists>nodeId. cb = RtmpDisconnect nodeId None)) \<longrightarrow>
            run (map (\<lambda>k'. Disconnect ProtoRtmp port k' name) ks) t = t)"
proof (intro conjI impI)
  show "callbackAt ProtoRtmp port (nodeIdOf c) (snd (createNode item c idx slot s))
          = Some (RtmpDisconnect (nodeIdOf c) None)"
    using callbackAt_useListener [OF assms(3)]
    by (simp add: createNode_def Let_def assms(1) rtmpSourceName_unset [OF assms(2)])
next
  show "runDisconnectCb ProtoRtmp port (RtmpDisconnect (nodeIdOf c) None) name t = t"
    by simp
next
  assume "callbackAt ProtoRtmp port k t = Some (RtmpDisconnect (nodeIdOf c) None)"
  then show "step (Disconnect ProtoRtmp port k name) t = t"
    by (auto simp: step_def callbackAt_def split: option.splits)
next
  assume "\<forall>k' cb. callbackAt ProtoRtmp port k' t = Some cb \<longrightarrow>
                     (\<exists>nodeId. cb = RtmpDisconnect nodeId None)"
  then show "run (map (\<lambda>k'. Disconnect ProtoRtmp port k' name) ks) t = t"
    by (rule nameless_fanout)
qed

theorem rtmp_without_name_never_advances_witness:
  "item_source rtmpItem = Rtmp 1935 None None
   \<and> \<not> (truthyString None \<and> truthyString None)
   \<and> listenerNodeOf ProtoRtmp 1935 (run [ListenerCreated] (Playlist_create [rtmpItem] None)) = Some 0
   \<and> callbackAt ProtoRtmp 1935 ''input-0''
       (run [ListenerCreated, Switch] (Playlist_create [rtmpItem] None))
       = Some (RtmpDisconnect ''input-0'' None)
   \<and> step (Disconnect ProtoRtmp 1935 ''input-0'' ''live/x'')
        (run [ListenerCreated, Switch] (Playlist_create [rtmpItem] None))
       = run [ListenerCreated, Switch] (Playlist_create [rtmpItem] None)
   \<and> map_option ln_onDisconnect
       (listenerOf ProtoRtmp 1935 (run [ListenerCreated, Switch] (Playlist_create [rtmpItem] None)))
       = Some [''input-0'' \<mapsto> RtmpDisconnect ''input-0'' None]
   \<and> run [Disconnect ProtoRtmp 1935 ''input-0'' ''live/x'', Disconnect ProtoRtmp 1935 ''input-1'' ''live/x'']
        (run [ListenerCreated, Switch] (Playlist_create [rtmpItem] None))
       = run [ListenerCreated, Switch] (Playlist_create [rtmpItem] None)"
proof -
  let ?s = "run [ListenerCreated] (Playlist_create [rtmpItem] None)"
  let ?t = "run [ListenerCreated, Switch] (Playlist_create [rtmpItem] None)"
  have a: "item_source rtmpItem = Rtmp 1935 None None"
    by (simp add: rtmpItem_def)
  have b: "\<not> (truthyString None \<and> truthyString None)"
    by simp
  have c: "listenerNodeOf ProtoRtmp 1935 ?s = Some 0"
    by (simp add: step_def Playlist_create_def Playlist_new_def rtmpItem_def beginListener_def
          listenerCreated_def setListener_def listenerNodeOf_def listenerOf_def)
  have n: "nodeIdOf 0 = ''input-0''"
    by (simp add: nodeIdOf_def toString.simps digitChar_def)
  have e: "map_option ln_onDisconnect (listenerOf ProtoRtmp 1935 ?t)
             = Some [''input-0'' \<mapsto> RtmpDisconnect ''input-0'' None]"
    by (simp add: model_defs rtmpItem_def)
  from e have d: "callbackAt ProtoRtmp 1935 ''input-0'' ?t = Some (RtmpDisconnect ''input-0'' None)"
    by (auto simp: callbackAt_def split: option.splits)
  from e have f: "\<forall>k' cb. callbackAt ProtoRtmp 1935 k' ?t = Some cb \<longrightarrow>
                     (\<exists>nodeId. cb = RtmpDisconnect nodeId None)"
    by (auto simp: callbackAt_def split: option.splits if_splits)
  note th = rtmp_without_name_never_advances
      [OF a b c, of 0 0 SlotCurrent "''live/x''" ?t "''input-0''" "[''input-0'', ''input-1'']"]
  from mp [OF conjunct1 [OF conjunct2 [OF conjunct2 [OF th]]]] d
  have g: "step (Disconnect ProtoRtmp 1935 ''input-0'' ''live/x'') ?t = ?t"
    by (simp add: n)
  from mp [OF conjunct2 [OF conjunct2 [OF conjunct2 [OF th]]] f]
  have h: "run [Disconnect ProtoRtmp 1935 ''input-0'' ''live/x'',
                Disconnect ProtoRtmp 1935 ''input-1'' ''live/x''] ?t = ?t"
    by simp
  from a b c d e g h show ?thesis
    by (intro conjI)
qed

subsection \<open>closeNode\<close>

lemma createNode_shared:
  assumes "listenerItem (item_source item) = Some (proto, port)"
      and "listenerNodeOf proto port s = Some n"
  shows "fst (createNode item c idx slot s)
           = Resolved \<lparr>cn_isStandaloneNode = False, cn_nodeId = nodeIdOf c, cn_node = n\<rparr>
               DurationUndefined"
    and "callbackAt proto port (nodeIdOf c) (snd (createNode item c idx slot s)) \<noteq> None"
proof -
  from assms(2) obtain l where l: "listenerOf proto port s = Some l" and n: "ln_node l = Some n"
    by (auto simp: listenerNodeOf_def split: option.splits)
  have u: "fst (useListener proto port cb f item (nodeIdOf c) idx slot s)
             = Resolved \<lparr>cn_isStandaloneNode = False, cn_nodeId = nodeIdOf c, cn_node = n\<rparr>
                 DurationUndefined" for cb f
    by (simp add: useListener_def l n Let_def)
  show "fst (createNode item c idx slot s)
           = Resolved \<lparr>cn_isStandaloneNode = False, cn_nodeId = nodeIdOf c, cn_node = n\<rparr>
               DurationUndefined"
    using assms(1) u
    by (auto simp: createNode_def listenerItem_def Let_def split: PlaylistSource.splits if_splits)
  show "callbackAt proto port (nodeIdOf c) (snd (createNode item c idx slot s)) \<noteq> None"
    using assms(1) callbackAt_useListener [OF assms(2)]
    by (auto simp: createNode_def listenerItem_def Let_def split: PlaylistSource.splits if_splits)
qed

text \<open>
  C5, as the claim states it, fails twice. The handle of an SRT listener item is not
  standalone, and after its \<^verbatim>\<open>closeNode\<close> the listener still holds the disconnect callback
  under \<^verbatim>\<open>input-0\<close>. The handle of a file item is standalone, and calling its \<^verbatim>\<open>closeNode\<close>
  twice leaves two pending \<^verbatim>\<open>node.close()\<close> timers where one call leaves one.
\<close>

theorem closeNode_counterexample:
  "map_option pi_closeNode (lookupItem listenerBound (playing_current listenerBound))
     = Some sharedHandle
   \<and> callbackAt ProtoSrt 5000 ''input-0'' (closeNode sharedHandle listenerBound)
     = Some (SrtDisconnect ''input-0'')
   \<and> map_option pi_closeNode (lookupItem fileCreated (playing_current fileCreated))
     = Some standaloneHandle
   \<and> map timer_action (timers (closeNode standaloneHandle fileCreated)) = [NodeCloseTimer 0]
   \<and> map timer_action (timers (closeNode standaloneHandle (closeNode standaloneHandle fileCreated)))
     = [NodeCloseTimer 0, NodeCloseTimer 0]"
  by (simp add: model_defs listenerBound_def fileCreated_def sharedHandle_def standaloneHandle_def
        srtListenerItem_def ts100_def)

text \<open>
  C5, amended. For an item on a shared listener whose node is registered, the handle that the
  factory returns is not standalone, and its \<^verbatim>\<open>closeNode\<close> does nothing at all, in any
  state: the state after it is the state before it, so every listener node and every
  registered disconnect callback is as before, the callback that the factory has just
  registered for the handle is still registered after \<^verbatim>\<open>closeNode\<close>, and two calls equal one
  call. For a standalone handle each call of \<^verbatim>\<open>closeNode\<close> adds one timer that closes the
  node after 1000 ms, so two calls add two.
\<close>

theorem closeNode_of_handles:
  assumes "listenerItem (item_source item) = Some (proto, port)"
      and "listenerNodeOf proto port s = Some n"
  shows "fst (createNode item c idx slot s)
           = Resolved \<lparr>cn_isStandaloneNode = False, cn_nodeId = nodeIdOf c, cn_node = n\<rparr>
               DurationUndefined
       \<and> closeNode \<lparr>cn_isStandaloneNode = False, cn_nodeId = nodeIdOf c, cn_node = n\<rparr> t = t
       \<and> listenerNodeOf proto' port'
           (closeNode \<lparr>cn_isStandaloneNode = False, cn_nodeId = nodeIdOf c, cn_node = n\<rparr> t)
           = listenerNodeOf proto' port' t
       \<and> callbackAt proto' port' k
           (closeNode \<lparr>cn_isStandaloneNode = False, cn_nodeId = nodeIdOf c, cn_node = n\<rparr> t)
           = callbackAt proto' port' k t
       \<and> callbackAt proto port (nodeIdOf c)
           (closeNode \<lparr>cn_isStandaloneNode = False, cn_nodeId = nodeIdOf c, cn_node = n\<rparr>
              (snd (createNode item c idx slot s))) \<noteq> None
       \<and> closeNode \<lparr>cn_isStandaloneNode = False, cn_nodeId = nodeIdOf c, cn_node = n\<rparr>
           (closeNode \<lparr>cn_isStandaloneNode = False, cn_nodeId = nodeIdOf c, cn_node = n\<rparr> t)
           = closeNode \<lparr>cn_isStandaloneNode = False, cn_nodeId = nodeIdOf c, cn_node = n\<rparr> t
       \<and> timers (closeNode \<lparr>cn_isStandaloneNode = True, cn_nodeId = i, cn_node = r\<rparr> u)
           = timers u @ [\<lparr>timer_id = nextTimer u, timer_delay = 1000,
                          timer_action = NodeCloseTimer r\<rparr>]
       \<and> timers (closeNode \<lparr>cn_isStandaloneNode = True, cn_nodeId = i, cn_node = r\<rparr>
                   (closeNode \<lparr>cn_isStandaloneNode = True, cn_nodeId = i, cn_node = r\<rparr> u))
           = timers u @ [\<lparr>timer_id = nextTimer u, timer_delay = 1000,
                          timer_action = NodeCloseTimer r\<rparr>,
                         \<lparr>timer_id = Suc (nextTimer u), timer_delay = 1000,
                          timer_action = NodeCloseTimer r\<rparr>]"
  using createNode_shared [OF assms]
  by (simp add: closeNode_def setTimeout_def)

theorem closeNode_of_handles_witness:
  "listenerItem (item_source srtListenerItem) = Some (ProtoSrt, 5000)
   \<and> listenerNodeOf ProtoSrt 5000 (run [ListenerCreated] (Playlist_create [srtListenerItem] None))
       = Some 0
   \<and> fst (createNode srtListenerItem 0 0 SlotCurrent
            (run [ListenerCreated] (Playlist_create [srtListenerItem] None)))
       = Resolved sharedHandle DurationUndefined
   \<and> closeNode sharedHandle listenerBound = listenerBound
   \<and> callbackAt ProtoSrt 5000 ''input-0'' (closeNode sharedHandle listenerBound)
       = callbackAt ProtoSrt 5000 ''input-0'' listenerBound
   \<and> timers (closeNode standaloneHandle (closeNode standaloneHandle fileCreated))
       = timers fileCreated
           @ [\<lparr>timer_id = nextTimer fileCreated, timer_delay = 1000,
                timer_action = NodeCloseTimer 0\<rparr>,
              \<lparr>timer_id = Suc (nextTimer fileCreated), timer_delay = 1000,
                timer_action = NodeCloseTimer 0\<rparr>]"
proof -
  let ?s = "run [ListenerCreated] (Playlist_create [srtListenerItem] None)"
  have a: "listenerItem (item_source srtListenerItem) = Some (ProtoSrt, 5000)"
    by (simp add: listenerItem_def srtListenerItem_def)
  have b: "listenerNodeOf ProtoSrt 5000 ?s = Some 0"
    by (simp add: step_def Playlist_create_def Playlist_new_def srtListenerItem_def
          beginListener_def listenerCreated_def setListener_def listenerNodeOf_def listenerOf_def)
  have n: "nodeIdOf 0 = ''input-0''"
    by (simp add: nodeIdOf_def toString.simps digitChar_def)
  show ?thesis
    using a b
      closeNode_of_handles [OF a b, where c = 0 and idx = 0 and slot = SlotCurrent
        and t = listenerBound and proto' = ProtoSrt and port' = 5000 and k = "''input-0''"
        and i = "''input-0''" and r = 0 and u = fileCreated]
    by (simp add: n sharedHandle_def standaloneHandle_def)
qed

subsection \<open>Two places where the code goes its own way\<close>

text \<open>
  C3. With one SRT listener item on port 5000, the state that \<^verbatim>\<open>Playlist.create\<close> returns
  has no listener registered on that port: \<^verbatim>\<open>precreateListeners\<close> is still suspended in the
  creation of the listener node. A \<^verbatim>\<open>start()\<close> in that state runs into the factory's
  error for the missing listener.
\<close>

theorem create_returns_before_listeners:
  "srtListeners (Playlist_create [srtListenerItem] None) 5000 = None
   \<and> precreate (Playlist_create [srtListenerItem] None)
       = Some \<lparr>pc_proto = ProtoSrt, pc_port = 5000, pc_node = 0, pc_id = ''srt-5000'',
               pc_rest = []\<rparr>
   \<and> rejections (run [Switch, Resume 0] (Playlist_create [srtListenerItem] None))
       = [NoListener ProtoSrt 5000]"
  by (simp add: model_defs srtListenerItem_def)

text \<open>
  C4. A file item followed by an RTP item: when \<^verbatim>\<open>update()\<close> for item 0 prewarms item 1,
  the request it hands to the engine is for item 1 and subscribes pin 1 in the next slot, but
  its node id is \<^verbatim>\<open>input-0\<close>, the id of the current item's node.
\<close>

theorem prewarmed_node_id:
  "requests filePlaying 1
     = Some \<lparr>req_id = ''input-0'', req_item = rtpItem, req_subscribeIndex = 1,
             req_subscribeSlot = SlotNext\<rparr>
   \<and> map_option req_id (nodes filePlaying 0) = Some ''input-0''"
  by code_simp

subsection \<open>The duration timer\<close>

text \<open>
  C2, as the claim states it, fails: for a file item of 100 ms and the default transition of
  300 ms, the delay given to the timer is -200, not 0. And for a current item whose known
  duration is 0 ms no timer is scheduled at all.
\<close>

theorem duration_timer_counterexample:
  "transitionDuration shortFilePlaying = 300
   \<and> map_option pi_duration (lookupItem shortFilePlaying (playing_current shortFilePlaying))
       = Some (Some 100)
   \<and> timers shortFilePlaying
       = [\<lparr>timer_id = 0, timer_delay = - 200, timer_action = DurationTimer 0\<rparr>]
   \<and> map_option pi_duration (lookupItem emptyMp4Playing (playing_current emptyMp4Playing))
       = Some (Some 0)
   \<and> tasks emptyMp4Playing = []
   \<and> timers emptyMp4Playing = []"
  by (simp add: model_defs shortFilePlaying_def emptyMp4Playing_def ts100_def mp4Item_def)

text \<open>
  C2, amended. Let the current item's duration \<open>d\<close> be known, and let \<open>d\<close>, the transition
  duration and their difference be safe integers. Then the tail of \<^verbatim>\<open>update()\<close> adds one
  timer if \<open>d\<close> is not 0, and none if it is 0. The timer's delay is \<open>d\<close> minus the transition
  duration as it is, negative when the duration is the shorter one. When that timer fires
  while the process runs, \<^verbatim>\<open>update()\<close> is called and \<^verbatim>\<open>sourceIndex\<close> goes up by one; the
  process exits then exactly when \<^verbatim>\<open>sourceIndex\<close> was already at the end of the playlist.
\<close>

theorem duration_timer_delay:
  assumes "lookupItem s (playing_current s) = Some p" and "pi_duration p = Some d"
      and "isSafeInteger d" and "isSafeInteger (transitionDuration s)"
      and "isSafeInteger (d - transitionDuration s)"
  shows "timers (update_tail c s)
           = timers s @ (if d \<noteq> 0
                         then [\<lparr>timer_id = nextTimer s, timer_delay = d - transitionDuration s,
                                 timer_action = DurationTimer c\<rparr>]
                         else [])
       \<and> (\<not> exited t \<and> find (\<lambda>x. timer_id x = k) (timers t)
                           = Some \<lparr>timer_id = k, timer_delay = d - transitionDuration s,
                                   timer_action = DurationTimer c\<rparr> \<longrightarrow>
            sourceIndex (step (TimerFires k) t) = Suc (sourceIndex t)
            \<and> (exited (step (TimerFires k) t) \<longleftrightarrow> length (playlist t) \<le> sourceIndex t))"
proof (intro conjI impI)
  show "timers (update_tail c s)
           = timers s @ (if d \<noteq> 0
                         then [\<lparr>timer_id = nextTimer s, timer_delay = d - transitionDuration s,
                                 timer_action = DurationTimer c\<rparr>]
                         else [])"
    using assms(1,2)
    by (simp add: update_tail_def prewarm_def Let_def case_prod_beta scheduleDuration_def
          setTimeout_def)
next
  assume a: "\<not> exited t \<and> find (\<lambda>x. timer_id x = k) (timers t)
                           = Some \<lparr>timer_id = k, timer_delay = d - transitionDuration s,
                                   timer_action = DurationTimer c\<rparr>"
  then show "sourceIndex (step (TimerFires k) t) = Suc (sourceIndex t)"
    by (simp add: step_def fireTimer_def Let_def sourceIndex_update)
  from a show "exited (step (TimerFires k) t) \<longleftrightarrow> length (playlist t) \<le> sourceIndex t"
    by (simp add: step_def fireTimer_def Let_def exited_update)
qed

theorem duration_timer_delay_witness:
  "map_option pi_duration (lookupItem shortFileResolved (playing_current shortFileResolved))
     = Some (Some 100)
   \<and> isSafeInteger 100
   \<and> isSafeInteger (transitionDuration shortFileResolved)
   \<and> isSafeInteger (100 - transitionDuration shortFileResolved)
   \<and> timers (update_tail 0 shortFileResolved)
       = [\<lparr>timer_id = 0, timer_delay = - 200, timer_action = DurationTimer 0\<rparr>]
   \<and> update_tail 0 shortFileResolved = shortFileFirst
   \<and> timers shortFileFirst
       = [\<lparr>timer_id = 0, timer_delay = - 200, timer_action = DurationTimer 0\<rparr>]
   \<and> \<not> exited shortFileFirst
   \<and> sourceIndex shortFileFirst = 1
   \<and> sourceIndex (step (TimerFires 0) shortFileFirst) = 2
   \<and> \<not> exited (step (TimerFires 0) shortFileFirst)"
proof -
  let ?p = "\<lparr>pi_item = ts100,
             pi_sub = Some \<lparr>sub_source = InputNode 0,
                            sub_sourceSelector = SelectStreams 0 AcceptAll AV 0\<rparr>,
             pi_silenceSub = None, pi_ready = False, pi_index = 0,
             pi_duration = Some 100, pi_closeNode = standaloneHandle\<rparr>"
  have a: "lookupItem shortFileResolved (playing_current shortFileResolved) = Some ?p"
    by (simp add: model_defs shortFileResolved_def ts100_def tsFile_def standaloneHandle_def)
  have b: "pi_duration ?p = Some 100"
    by simp
  have td: "transitionDuration shortFileResolved = 300" and nt: "nextTimer shortFileResolved = 0"
    and ts: "timers shortFileResolved = []"
    by (simp_all add: model_defs shortFileResolved_def ts100_def tsFile_def)
  have c: "isSafeInteger 100" and d: "isSafeInteger (transitionDuration shortFileResolved)"
    and e: "isSafeInteger (100 - transitionDuration shortFileResolved)"
    by (simp_all add: td isSafeInteger_def)
  have f: "\<not> exited shortFileFirst" and g: "sourceIndex shortFileFirst = 1"
    and h: "length (playlist shortFileFirst) = 2"
    and i: "timers shortFileFirst
              = [\<lparr>timer_id = 0, timer_delay = - 200, timer_action = DurationTimer 0\<rparr>]"
    by (simp_all add: model_defs shortFileFirst_def ts100_def tsFile_def)
  note th = duration_timer_delay [OF a b c d e, of 0 shortFileFirst 0]
  from conjunct1 [OF th]
  have j: "timers (update_tail 0 shortFileResolved)
             = [\<lparr>timer_id = 0, timer_delay = - 200, timer_action = DurationTimer 0\<rparr>]"
    by (simp add: td nt ts)
  have "\<not> exited shortFileFirst \<and> find (\<lambda>x. timer_id x = 0) (timers shortFileFirst)
                           = Some \<lparr>timer_id = 0, timer_delay = 100 - transitionDuration shortFileResolved,
                                   timer_action = DurationTimer 0\<rparr>"
    by (simp add: f i td)
  from mp [OF conjunct2 [OF th] this]
  have k: "sourceIndex (step (TimerFires 0) shortFileFirst) = 2"
    and l: "\<not> exited (step (TimerFires 0) shortFileFirst)"
    by (simp_all add: g h)
  from a have a': "map_option pi_duration
                     (lookupItem shortFileResolved (playing_current shortFileResolved))
                     = Some (Some 100)"
    by simp
  have m: "update_tail 0 shortFileResolved = shortFileFirst"
    by (simp add: model_defs shortFileFirst_def shortFileResolved_def ts100_def tsFile_def
          standaloneHandle_def)
  from a' c d e j m i f g k l show ?thesis
    by (intro conjI)
qed

subsection \<open>Timers are tracked\<close>

lemma precreateListeners_frame [simp]:
  "playlist (precreateListeners xs s) = playlist s
   \<and> transitionDuration (precreateListeners xs s) = transitionDuration s
   \<and> sourceIndex (precreateListeners xs s) = sourceIndex s
   \<and> playing_prev (precreateListeners xs s) = playing_prev s
   \<and> playing_current (precreateListeners xs s) = playing_current s
   \<and> playing_next (precreateListeners xs s) = playing_next s
   \<and> playing (precreateListeners xs s) = playing s
   \<and> timeouts (precreateListeners xs s) = timeouts s
   \<and> store (precreateListeners xs s) = store s
   \<and> nextAddr (precreateListeners xs s) = nextAddr s
   \<and> timers (precreateListeners xs s) = timers s
   \<and> nextTimer (precreateListeners xs s) = nextTimer s
   \<and> requests (precreateListeners xs s) = requests s
   \<and> nodes (precreateListeners xs s) = nodes s
   \<and> rejectedRequests (precreateListeners xs s) = rejectedRequests s
   \<and> mp4Info (precreateListeners xs s) = mp4Info s
   \<and> tasks (precreateListeners xs s) = tasks s
   \<and> exited (precreateListeners xs s) = exited s
   \<and> rejections (precreateListeners xs s) = rejections s
   \<and> switcherSubs (precreateListeners xs s) = switcherSubs s
   \<and> srtListeners (precreateListeners xs s) = srtListeners s
   \<and> rtmpListeners (precreateListeners xs s) = rtmpListeners s"
  by (induction xs arbitrary: s) (simp_all split: PlaylistSource.splits)

lemma listenerCreated_frame [simp]:
  "playlist (listenerCreated s) = playlist s"
  "transitionDuration (listenerCreated s) = transitionDuration s"
  "sourceIndex (listenerCreated s) = sourceIndex s"
  "playing_prev (listenerCreated s) = playing_prev s"
  "playing_current (listenerCreated s) = playing_current s"
  "playing_next (listenerCreated s) = playing_next s"
  "playing (listenerCreated s) = playing s"
  "timeouts (listenerCreated s) = timeouts s"
  "store (listenerCreated s) = store s"
  "nextAddr (listenerCreated s) = nextAddr s"
  "timers (listenerCreated s) = timers s"
  "nextTimer (listenerCreated s) = nextTimer s"
  "requests (listenerCreated s) = requests s"
  "nodes (listenerCreated s) = nodes s"
  "rejectedRequests (listenerCreated s) = rejectedRequests s"
  "mp4Info (listenerCreated s) = mp4Info s"
  "tasks (listenerCreated s) = tasks s"
  "exited (listenerCreated s) = exited s"
  "rejections (listenerCreated s) = rejections s"
  "switcherSubs (listenerCreated s) = switcherSubs s"
  by (simp_all add: listenerCreated_def split: option.splits)

lemma later_refl [simp]: "later s s"
  by (simp add: later_def)

lemma later_trans: "later s s' \<Longrightarrow> later s' s'' \<Longrightarrow> later s s''"
  by (fastforce simp: later_def)

lemma safe_refl [simp]: "safe s s"
  by (simp add: safe_def)

lemma safe_trans: "safe s s' \<Longrightarrow> safe s' s'' \<Longrightarrow> safe s s''"
  by (auto simp: safe_def intro: later_trans)

lemma safe_same:
  "timers s' = timers s \<Longrightarrow> timeouts s' = timeouts s \<Longrightarrow> nextTimer s' = nextTimer s \<Longrightarrow> safe s s'"
  by (simp add: safe_def timersTracked_def later_def durationPending_def timerIds_def)

lemma safe_setTimeout:
  "\<not> isDurationTimer act \<Longrightarrow> safe s (setTimeout act d s)"
  by (auto simp: safe_def timersTracked_def later_def durationPending_def timerIds_def setTimeout_def)

lemma safe_clearTimeout: "safe s (clearTimeout t s)"
  by (auto simp: safe_def timersTracked_def later_def durationPending_def timerIds_def clearTimeout_def)

lemma safe_clearTimeouts: "safe s (clearTimeouts (timeouts s) s)"
  by (auto simp: safe_def timersTracked_def later_def durationPending_def timerIds_def clearTimeouts_eq)

lemma safe_scheduleDuration: "safe s (scheduleDuration c s)"
  by (auto simp: safe_def timersTracked_def later_def durationPending_def timerIds_def
        scheduleDuration_def setTimeout_def Let_def split: option.splits)

lemma safe_refreshActive: "safe s (refreshActive s)"
  by (auto simp: refreshActive_def activateSource_def safe_same
           intro!: safe_trans [OF safe_same safe_setTimeout] split: option.splits)

lemma safe_closeNode: "safe s (closeNode cn s)"
  by (simp add: closeNode_def safe_setTimeout)

lemma safe_update_tail: "safe s (update_tail c s)"
  unfolding update_tail_def
  by (rule safe_trans [OF safe_scheduleDuration]) (rule safe_same; simp)

text \<open>\<^verbatim>\<open>update\<close>, seen from the state in which its loop over \<^verbatim>\<open>this.timeouts\<close> has ended.\<close>

lemma safe_update_after_clear: "safe (clearTimeouts (timeouts s) s) (update s)"
proof -
  let ?s1 = "clearTimeouts (timeouts s) s"
  show ?thesis
  proof (cases "length (playlist s) \<le> sourceIndex s")
    case True
    then have "update s = ?s1\<lparr>sourceIndex := Suc (sourceIndex s), exited := True\<rparr>"
      by (simp add: update_def Let_def)
    then show ?thesis
      by (simp add: safe_same)
  next
    case False
    show ?thesis
    proof (cases "playing_next s")
      case None
      with False have "timers (update s) = timers ?s1" "timeouts (update s) = timeouts ?s1"
          "nextTimer (update s) = nextTimer ?s1"
        by (simp_all add: update_def Let_def case_prod_beta)
      then show ?thesis
        by (rule safe_same)
    next
      case (Some n)
      let ?s2 = "?s1\<lparr>sourceIndex := Suc (sourceIndex s), playing_prev := playing_current s,
                       playing_current := Some n, playing_next := None\<rparr>"
      have u: "update s = update_tail (sourceIndex s) (refreshActive ?s2)"
        using False Some by (simp add: update_def Let_def)
      have 2: "safe ?s1 ?s2" by (rule safe_same) simp_all
      show ?thesis
        unfolding u
        by (rule safe_trans [OF 2 safe_trans [OF safe_refreshActive safe_update_tail]])
    qed
  qed
qed

lemma safe_update: "safe s (update s)"
  by (rule safe_trans [OF safe_clearTimeouts safe_update_after_clear])

lemma safe_afterDuration: "safe s (afterDuration slot c cn d s)"
proof (cases slot)
  case SlotCurrent
  have "safe s (writeBack (playing_current s) d cn s)"
    by (rule safe_same) simp_all
  then show ?thesis
    using SlotCurrent by (simp add: safe_trans [OF _ safe_update_tail])
next
  case SlotNext
  then show ?thesis
    by (simp add: safe_same split: option.splits)
qed

lemma safe_afterCreate: "safe s (afterCreate slot c item cn dur s)"
  by (simp add: afterCreate_def safe_afterDuration safe_same)

lemma safe_resumeTask: "resumeTask t s = Some s' \<Longrightarrow> safe s s'"
  by (cases t)
     (auto simp: safe_afterCreate safe_afterDuration safe_same
           split: AwaitResult.splits DurationPromise.splits option.splits)

lemma safe_fireTimer: "safe s (fireTimer t s)"
proof (cases "timer_action t")
  case (DurationTimer c)
  have "safe (update s) (setTimeout (CloseTimer x) 1000 (update s))" for x
    by (rule safe_setTimeout) simp
  from safe_trans [OF safe_update this] show ?thesis
    using DurationTimer by (simp add: fireTimer_def Let_def safe_update)
next
  case (CloseTimer close)
  then show ?thesis
    by (simp add: fireTimer_def safe_closeNode split: option.splits)
next
  case (NodeCloseTimer n)
  then show ?thesis
    by (simp add: fireTimer_def safe_same)
next
  case (SwitchTimer pin)
  then show ?thesis
    by (simp add: fireTimer_def safe_same)
qed

lemma safe_runDisconnectCb: "safe s (runDisconnectCb proto port cb name s)"
proof -
  have "safe s (detach proto port k (update s))" for k
    by (rule safe_trans [OF safe_update]) (rule safe_same; simp)
  then show ?thesis
    by (cases cb) (simp_all add: Let_def safe_update)
qed

lemma safe_sourceSelector: "safe s (snd (sourceSelector sel streams s))"
proof (cases sel)
  case (SelectStreams idx f kind st)
  have "safe s (setReady st r s)" for r
    by (rule safe_same) simp_all
  from safe_trans [OF this safe_refreshActive] show ?thesis
    using SelectStreams by (simp add: selectStreams_def Let_def)
next
  case (SelectSilence idx)
  then show ?thesis by simp
qed

lemma safe_handle: "safe s (handle ev s)"
proof (cases ev)
  case Switch
  then show ?thesis by (simp add: safe_update)
next
  case (EngineCreated r)
  then show ?thesis by (simp add: safe_same)
next
  case (EngineFailed r)
  then show ?thesis by (simp add: safe_same)
next
  case (Resume k)
  have "safe s (s\<lparr>tasks := ts\<rparr>)" for ts
    by (rule safe_same) simp_all
  then show ?thesis
    using Resume by (auto split: option.splits intro: safe_trans [OF _ safe_resumeTask])
next
  case (TimerFires tid)
  then show ?thesis
    by (auto split: option.splits intro: safe_trans [OF safe_clearTimeout safe_fireTimer])
next
  case (Eof r)
  then show ?thesis
    by (auto split: option.splits intro: safe_trans [OF safe_closeNode safe_update])
next
  case (ConnectionStatusChange r)
  then show ?thesis
    by (auto split: option.splits intro: safe_trans [OF safe_closeNode safe_update])
next
  case (Disconnect proto port key name)
  then show ?thesis
    by (simp add: safe_runDisconnectCb split: option.splits)
next
  case (NodeClosed r)
  then show ?thesis by (simp add: safe_same split: option.splits)
next
  case (Streams k streams)
  then show ?thesis by (simp add: safe_sourceSelector)
next
  case (Mp4Info r d)
  then show ?thesis by (simp add: safe_same split: option.splits)
next
  case ListenerCreated
  then show ?thesis by (simp add: safe_same)
next
  case ListenerFailed
  then show ?thesis by (simp add: safe_same listenerFailed_def)
qed

lemma safe_step: "safe s (step ev s)"
  by (simp add: step_def safe_handle)

lemma safe_run: "safe s (run evs s)"
proof (induction evs arbitrary: s)
  case Nil
  show ?case by simp
next
  case (Cons ev evs)
  from safe_trans [OF safe_step Cons.IH] show ?case by simp
qed

lemma timersTracked_create: "timersTracked (Playlist_create pl td)"
  by (simp add: timersTracked_def durationPending_def Playlist_create_def Playlist_new_def)

lemma timersTracked_run: "timersTracked (run evs (Playlist_create pl td))"
  using safe_run [of "Playlist_create pl td" evs] timersTracked_create
  by (simp add: safe_def)

subsection \<open>An advance cancels the duration timers\<close>

lemma cleared_none_pending:
  "timersTracked u \<Longrightarrow> durationPending (clearTimeouts (timeouts u) u) = []"
  by (auto simp: timersTracked_def durationPending_def clearTimeouts_eq filter_empty_conv)

lemma gone_stays_gone:
  "later s s' \<Longrightarrow> k < nextTimer s \<Longrightarrow> k \<notin> timerIds s \<Longrightarrow> k \<notin> timerIds s'"
  by (auto simp: later_def)

lemma update_clears:
  assumes "timersTracked u" and "t \<in> set (durationPending u)"
  shows "timer_id t \<notin> timerIds (update u)"
proof -
  let ?s1 = "clearTimeouts (timeouts u) u"
  from assms have k: "timer_id t \<in> set (timeouts u)" and b: "timer_id t < nextTimer u"
    by (auto simp: timersTracked_def durationPending_def)
  from k have "timer_id t \<notin> timerIds ?s1"
    by (auto simp: timerIds_def clearTimeouts_eq)
  moreover have "later ?s1 (update u)"
    using safe_update_after_clear [of u] by (simp add: safe_def)
  moreover have "timer_id t < nextTimer ?s1"
    using b by simp
  ultimately show ?thesis
    by (rule gone_stays_gone [rotated 2])
qed

lemma clears_via:
  assumes tr: "timersTracked s" and su: "safe s u" and us: "safe (update u) s'"
      and t: "t \<in> set (durationPending s)"
      and tu: "t \<in> set (durationPending u) \<or> timer_id t \<notin> timerIds u"
  shows "timer_id t \<notin> timerIds s'"
proof -
  from tr su have tru: "timersTracked u" and l: "later s u"
    by (simp_all add: safe_def)
  from tr t have "timer_id t < nextTimer s"
    by (auto simp: timersTracked_def durationPending_def)
  with l have b: "timer_id t < nextTimer u"
    by (simp add: later_def)
  have uu: "later u (update u)"
    using safe_update [of u] by (simp add: safe_def)
  have "timer_id t \<notin> timerIds (update u)"
  proof (cases "t \<in> set (durationPending u)")
    case True
    with tru show ?thesis by (rule update_clears)
  next
    case False
    with tu have "timer_id t \<notin> timerIds u" by simp
    with uu b show ?thesis by (rule gone_stays_gone)
  qed
  moreover have "later (update u) s'"
    using us by (simp add: safe_def)
  moreover have "timer_id t < nextTimer (update u)"
    using b uu by (simp add: later_def)
  ultimately show ?thesis
    by (rule gone_stays_gone [rotated 2])
qed

lemma sourceIndex_resumeTask: "resumeTask t s = Some s' \<Longrightarrow> sourceIndex s' = sourceIndex s"
  by (cases t) (auto split: AwaitResult.splits DurationPromise.splits option.splits)

lemma durationPending_closeNode [simp]: "durationPending (closeNode cn s) = durationPending s"
  by (simp add: durationPending_def closeNode_def setTimeout_def)

lemma durationPending_clearTimeout:
  "t \<in> set (durationPending s) \<Longrightarrow>
   t \<in> set (durationPending (clearTimeout k s)) \<or> timer_id t \<notin> timerIds (clearTimeout k s)"
  by (auto simp: durationPending_def clearTimeout_def timerIds_def)

lemma handle_clears:
  assumes tr: "timersTracked s" and adv: "sourceIndex (handle ev s) \<noteq> sourceIndex s"
      and t: "t \<in> set (durationPending s)"
  shows "timer_id t \<notin> timerIds (handle ev s)"
proof (cases ev)
  case Switch
  from clears_via [OF tr safe_refl safe_refl t] show ?thesis
    using Switch t by simp
next
  case (EngineCreated r)
  with adv show ?thesis by simp
next
  case (EngineFailed r)
  with adv show ?thesis by simp
next
  case (Resume k)
  with adv show ?thesis
    by (auto split: option.splits if_splits dest: sourceIndex_resumeTask)
next
  case (TimerFires tid)
  show ?thesis
  proof (cases "find (\<lambda>x. timer_id x = tid) (timers s)")
    case None
    with adv TimerFires show ?thesis by simp
  next
    case (Some tm)
    let ?u = "clearTimeout tid s"
    show ?thesis
    proof (cases "timer_action tm")
      case (DurationTimer c)
      have "safe (update ?u) (fireTimer tm ?u)"
      proof -
        have "safe (update ?u) (setTimeout (CloseTimer x) 1000 (update ?u))" for x
          by (rule safe_setTimeout) simp
        then show ?thesis
          using DurationTimer by (simp add: fireTimer_def Let_def)
      qed
      from clears_via [OF tr safe_clearTimeout this t durationPending_clearTimeout [OF t]]
      show ?thesis
        using TimerFires Some by simp
    next
      case (CloseTimer close)
      with adv TimerFires Some show ?thesis
        by (simp add: fireTimer_def split: option.splits)
    next
      case (NodeCloseTimer n)
      with adv TimerFires Some show ?thesis
        by (simp add: fireTimer_def)
    next
      case (SwitchTimer pin)
      with adv TimerFires Some show ?thesis
        by (simp add: fireTimer_def)
    qed
  qed
next
  case (Eof r)
  show ?thesis
  proof (cases "nodes s r")
    case None
    with adv Eof show ?thesis by simp
  next
    case (Some req)
    show ?thesis
    proof (cases "isFile (item_source (req_item req))")
      case True
      have "t \<in> set (durationPending (closeNode (closeNodeOf r req) s))"
        using t by simp
      then have "timer_id t \<notin> timerIds (update (closeNode (closeNodeOf r req) s))"
        by (intro clears_via [OF tr safe_closeNode safe_refl t]) simp
      then show ?thesis
        using Eof Some True by simp
    next
      case False
      with adv Eof Some show ?thesis by simp
    qed
  qed
next
  case (ConnectionStatusChange r)
  show ?thesis
  proof (cases "nodes s r")
    case None
    with adv ConnectionStatusChange show ?thesis by simp
  next
    case (Some req)
    show ?thesis
    proof (cases "isSrtCaller (item_source (req_item req))")
      case True
      have "t \<in> set (durationPending (closeNode (closeNodeOf r req) s))"
        using t by simp
      then have "timer_id t \<notin> timerIds (update (closeNode (closeNodeOf r req) s))"
        by (intro clears_via [OF tr safe_closeNode safe_refl t]) simp
      then show ?thesis
        using ConnectionStatusChange Some True by simp
    next
      case False
      with adv ConnectionStatusChange Some show ?thesis by simp
    qed
  qed
next
  case (Disconnect proto port key name)
  have d: "safe (update s) (detach proto port k (update s))" for k
    by (rule safe_same) simp_all
  have 1: "timer_id t \<notin> timerIds (update s)"
    using clears_via [OF tr safe_refl safe_refl t] t by simp
  have 2: "timer_id t \<notin> timerIds (detach proto port k (update s))" for k
    using clears_via [OF tr safe_refl d t] t by simp
  show ?thesis
  proof (cases "callbackAt proto port key s")
    case None
    with adv Disconnect show ?thesis
      by (simp add: callbackAt_def split: option.splits)
  next
    case (Some cb)
    then have h: "handle ev s = runDisconnectCb proto port cb name s"
      using Disconnect by (auto simp: callbackAt_def split: option.splits)
    show ?thesis
      using adv 1 2 unfolding h
      by (cases cb) (auto simp: Let_def split: if_splits)
  qed
next
  case (NodeClosed r)
  with adv show ?thesis by (simp split: option.splits)
next
  case (Streams k streams)
  with adv show ?thesis by (simp split: if_splits)
next
  case (Mp4Info r d)
  with adv show ?thesis by (simp split: option.splits if_splits)
next
  case ListenerCreated
  with adv show ?thesis by simp
next
  case ListenerFailed
  with adv show ?thesis by (simp add: listenerFailed_def)
qed

subsection \<open>The slots when invocations of update do not overlap\<close>

lemma idxOf_alt:
  "idxOf s slot = Option.bind slot (\<lambda>a. map_option pi_index (store s a))"
  by (simp add: idxOf_def lookupItem_def split: option.splits)

lemma index_writeBack [simp]:
  "map_option pi_index (store (writeBack slot d cn s) a) = map_option pi_index (store s a)"
  by (simp add: writeBack_def split: option.splits)

lemma index_setReady [simp]:
  "map_option pi_index (store (setReady b r s) a) = map_option pi_index (store s a)"
  by (simp add: setReady_def split: option.splits)

lemma item_writeBack [simp]:
  "map_option pi_item (store (writeBack slot d cn s) a) = map_option pi_item (store s a)"
  by (simp add: writeBack_def split: option.splits)

lemma item_setReady [simp]:
  "map_option pi_item (store (setReady b r s) a) = map_option pi_item (store s a)"
  by (simp add: setReady_def split: option.splits)

lemma subscribeToNode_view:
  "map_option pi_index (store (subscribeToNode i slot info s) a)
     = (if a = nextAddr s then Some i else map_option pi_index (store s a))"
  "map_option pi_item (store (subscribeToNode i slot info s) a)
     = (if a = nextAddr s then Some (ici_item info) else map_option pi_item (store s a))"
  "nextAddr (subscribeToNode i slot info s) = Suc (nextAddr s)"
  "playing_current (subscribeToNode i slot info s)
     = (if slot = SlotCurrent then Some (nextAddr s) else playing_current s)"
  "playing_next (subscribeToNode i slot info s)
     = (if slot = SlotNext then Some (nextAddr s) else playing_next s)"
  by (simp_all add: subscribeToNode_def Let_def setSlot_def split: SlotName.splits)

lemma requestNode_requested: "requested item i slot s (requestNode item c i slot s)"
  unfolding requested_def requestNode_def Let_def
  by (auto intro: exI [of _ "\<lparr>req_id = nodeIdOf c, req_item = item, req_subscribeIndex = i,
                              req_subscribeSlot = slot\<rparr>"])

lemma useListener_view:
  "(\<exists>e. useListener proto port cb f item k i slot s = (Rejected e, s))
   \<or> subscribed item i slot s (useListener proto port cb f item k i slot s)"
proof (cases "listenerNodeOf proto port s")
  case None
  then show ?thesis by (simp add: useListener_missing)
next
  case (Some n)
  then obtain l where l: "listenerOf proto port s = Some l" and n: "ln_node l = Some n"
    by (auto simp: listenerNodeOf_def split: option.splits)
  have "subscribed item i slot s (useListener proto port cb f item k i slot s)"
    by (simp add: subscribed_def useListener_def l n Let_def subscribeToNode_view)
  then show ?thesis ..
qed

lemma createNode_view:
  "requested item i slot s (createNode item c i slot s)
   \<or> (\<exists>e. createNode item c i slot s = (Rejected e, s))
   \<or> subscribed item i slot s (createNode item c i slot s)"
proof (cases "item_source item")
  case (Srt mode ip port)
  then show ?thesis
    using useListener_view [of ProtoSrt port _ AcceptAll item "nodeIdOf c" i slot s]
      requestNode_requested [of item i slot s c]
    by (auto simp: createNode_def Let_def)
next
  case (Rtmp port app stream)
  then show ?thesis
    using useListener_view [of ProtoRtmp port _ _ item "nodeIdOf c" i slot s]
    by (auto simp: createNode_def Let_def)
qed (simp_all add: createNode_def Let_def requestNode_requested)

lemma store_None_index: "(store s a = None) = (map_option pi_index (store s a) = None)"
  by simp

lemma create_ok:
  assumes st: "storeOK s" and fr: "freshNodes s" and ta: "tasks s = []"
      and rq: "requests s = Map.empty" and nx: "playing_next s = None"
      and si: "sourceIndex s = Suc c"
      and sl: "slot = SlotNext \<longrightarrow> Suc c < length (playlist s) \<and> idxOf s (playing_current s) = Some c"
      and i: "i = (case slot of SlotCurrent \<Rightarrow> c | SlotNext \<Rightarrow> Suc c)"
  shows "serialInv (suspend (AwaitCreate slot c item (fst (createNode item c' i slot s)))
                      (snd (createNode item c' i slot s)))"
proof -
  let ?r = "createNode item c' i slot s"
  let ?s' = "suspend (AwaitCreate slot c item (fst ?r)) (snd ?r)"
  have t': "tasks ?s' = [AwaitCreate slot c item (fst ?r)]"
    using ta by (simp add: suspend_def)
  have fresh: "nodes s (nextNode s) = None" "nextNode s \<notin> set (rejectedRequests s)"
    using fr by (simp_all add: freshNodes_def)
  from createNode_view [of item i slot s c']
  consider (req) "requested item i slot s ?r" | (rej) e where "?r = (Rejected e, s)"
    | (sub) "subscribed item i slot s ?r"
    by blast
  then show ?thesis
  proof cases
    case req
    then obtain q where q: "requests (snd ?r) = (requests s)(nextNode s \<mapsto> q)"
        "req_subscribeIndex q = i" "req_subscribeSlot q = slot"
      and f: "fst ?r = OnRequest (nextNode s)" and n: "nextNode (snd ?r) = Suc (nextNode s)"
      and s: "store (snd ?r) = store s" "nextAddr (snd ?r) = nextAddr s"
        "playing_current (snd ?r) = playing_current s" "playing_next (snd ?r) = playing_next s"
      by (auto simp: requested_def)
    have 1: "storeOK ?s'"
      using st s by (simp add: storeOK_def)
    have 2: "freshNodes ?s'"
      using fr q n by (simp add: freshNodes_def)
    have 3: "awaitedOK (OnRequest (nextNode s)) i slot ?s'"
      using q rq fresh by (simp add: awaitedOK_def)
    have 4: "\<not> isDone (OnRequest (nextNode s)) ?s'"
      using fresh by (simp add: isDone_def awaitResult_def)
    have 5: "idxOf ?s' (playing_current ?s') = idxOf s (playing_current s)"
      using s by (simp add: idxOf_alt split: option.splits)
    have "taskOK (AwaitCreate slot c item (OnRequest (nextNode s))) ?s'"
      using 3 4 5 si nx sl i s by (cases slot) simp_all
    then show ?thesis
      using 1 2 t' f by (simp add: serialInv_def)
  next
    case rej
    have 1: "storeOK ?s'" "freshNodes ?s'"
      using st fr rej by (simp_all add: storeOK_def freshNodes_def)
    have 3: "awaitedOK (Rejected e) i slot ?s'"
      using rq rej by (simp add: awaitedOK_def)
    have 4: "\<not> isDone (Rejected e) ?s'"
      by (simp add: isDone_def awaitResult_def)
    have 5: "idxOf ?s' (playing_current ?s') = idxOf s (playing_current s)"
      using rej by (simp add: idxOf_alt split: option.splits)
    have "taskOK (AwaitCreate slot c item (Rejected e)) ?s'"
      using 3 4 5 si nx sl i rej by (cases slot) simp_all
    then show ?thesis
      using 1 t' rej by (simp add: serialInv_def)
  next
    case sub
    then obtain cn dur where f: "fst ?r = Resolved cn dur"
      and q: "requests (snd ?r) = requests s" "nextNode (snd ?r) = nextNode s"
      and ix: "\<And>a. map_option pi_index (store (snd ?r) a)
                      = (if a = nextAddr s then Some i else map_option pi_index (store s a))"
      and na: "nextAddr (snd ?r) = Suc (nextAddr s)"
      and pc: "playing_current (snd ?r) = (if slot = SlotCurrent then Some (nextAddr s) else playing_current s)"
      and pn: "playing_next (snd ?r) = (if slot = SlotNext then Some (nextAddr s) else playing_next s)"
      by (auto simp: subscribed_def)
    have 1: "storeOK ?s'"
      unfolding storeOK_def store_None_index using st na ix
      by (simp add: storeOK_def)
    have 2: "freshNodes ?s'"
      using fr q by (simp add: freshNodes_def)
    have 3: "awaitedOK (Resolved cn dur) i slot ?s'"
      using rq q by (simp add: awaitedOK_def)
    have 4: "isDone (Resolved cn dur) ?s'"
      by (simp add: isDone_def awaitResult_def)
    have "taskOK (AwaitCreate slot c item (Resolved cn dur)) ?s'"
    proof (cases slot)
      case SlotCurrent
      then show ?thesis
        using 3 4 si nx i pc pn ix by (simp add: idxOf_alt)
    next
      case SlotNext
      with sl obtain a where a: "playing_current s = Some a"
          "map_option pi_index (store s a) = Some c"
        by (auto simp: idxOf_alt bind_eq_Some_conv)
      then have "a \<noteq> nextAddr s"
        using st by (auto simp: storeOK_def)
      then show ?thesis
        using SlotNext 3 4 si i pc pn ix a sl by (simp add: idxOf_alt)
    qed
    then show ?thesis
      using 1 2 t' f by (simp add: serialInv_def)
  qed
qed

lemma tail_ok:
  assumes "storeOK s" and "freshNodes s" and "tasks s = []"
      and "requests s = Map.empty" and "playing_next s = None"
      and "sourceIndex s = Suc c" and "idxOf s (playing_current s) = Some c"
  shows "serialInv (update_tail c s)"
proof -
  let ?s1 = "scheduleDuration c s"
  have a: "storeOK ?s1" "freshNodes ?s1" "tasks ?s1 = []" "requests ?s1 = Map.empty"
      "playing_next ?s1 = None" "sourceIndex ?s1 = Suc c" "idxOf ?s1 (playing_current ?s1) = Some c"
    using assms by (simp_all add: storeOK_def freshNodes_def idxOf_alt split: option.splits)
  show ?thesis
  proof (cases "c + 1 < length (playlist s) \<and> isLive (item_source (playlist s ! (c + 1)))")
    case True
    have "serialInv (suspend (AwaitCreate SlotNext c (playlist s ! (c + 1))
                       (fst (createNode (playlist s ! (c + 1)) c (Suc c) SlotNext ?s1)))
                    (snd (createNode (playlist s ! (c + 1)) c (Suc c) SlotNext ?s1)))"
      using True a by (intro create_ok) simp_all
    then show ?thesis
      using True by (simp add: update_tail_def prewarm_def Let_def case_prod_beta)
  next
    case False
    then have "update_tail c s = ?s1"
      by (auto simp: update_tail_def prewarm_def Let_def)
    then show ?thesis
      using a by (simp add: serialInv_def idleOK_def)
  qed
qed

lemma update_ok:
  assumes inv: "serialInv s" and ta: "tasks s = []"
  shows "serialInv (update s)"
proof -
  let ?s1 = "clearTimeouts (timeouts s) s"
  let ?c = "sourceIndex s"
  from inv ta have st: "storeOK s" and fr: "freshNodes s" and idle: "idleOK s"
    by (simp_all add: serialInv_def)
  from idle have rq: "requests s = Map.empty"
    by (simp add: idleOK_def)
  show ?thesis
  proof (cases "length (playlist s) \<le> ?c")
    case True
    with idle have "playing_next s = None"
      by (auto simp: idleOK_def)
    moreover from True have "update s = ?s1\<lparr>sourceIndex := Suc ?c, exited := True\<rparr>"
      by (simp add: update_def Let_def)
    ultimately show ?thesis
      using st fr ta rq by (simp add: serialInv_def idleOK_def storeOK_def freshNodes_def)
  next
    case False
    show ?thesis
    proof (cases "playing_next s")
      case None
      let ?s2 = "?s1\<lparr>sourceIndex := Suc ?c, playing_prev := playing_current s\<rparr>"
      have u: "update s = suspend (AwaitCreate SlotCurrent ?c (playlist s ! ?c)
                                     (fst (createNode (playlist s ! ?c) ?c ?c SlotCurrent ?s2)))
                            (snd (createNode (playlist s ! ?c) ?c ?c SlotCurrent ?s2))"
        using False None by (simp add: update_def Let_def case_prod_beta)
      show ?thesis
        unfolding u using st fr ta rq None
        by (intro create_ok) (simp_all add: storeOK_def freshNodes_def)
    next
      case (Some n)
      let ?s3 = "refreshActive (?s1\<lparr>sourceIndex := Suc ?c, playing_prev := playing_current s,
                                     playing_current := Some n, playing_next := None\<rparr>)"
      have u: "update s = update_tail ?c ?s3"
        using False Some by (simp add: update_def Let_def)
      from idle Some have "idxOf s (Some n) = Some ?c"
        by (simp add: idleOK_def)
      then have "idxOf ?s3 (playing_current ?s3) = Some ?c"
        by (simp add: idxOf_alt)
      then show ?thesis
        unfolding u using st fr ta rq
        by (intro tail_ok) (simp_all add: storeOK_def freshNodes_def)
    qed
  qed
qed

lemma serialInv_sameView:
  assumes v: "sameView s s'" and inv: "serialInv s"
  shows "serialInv s'"
proof -
  from v have eq: "sourceIndex s' = sourceIndex s" "playlist s' = playlist s"
      "playing_current s' = playing_current s" "playing_next s' = playing_next s"
      "tasks s' = tasks s" "requests s' = requests s" "nodes s' = nodes s"
      "rejectedRequests s' = rejectedRequests s" "nextNode s \<le> nextNode s'"
      "nextAddr s' = nextAddr s"
    and ix: "\<And>a. map_option pi_index (store s' a) = map_option pi_index (store s a)"
    by (simp_all add: sameView_def)
  have id: "idxOf s' slot = idxOf s slot" for slot
    by (simp add: idxOf_alt ix split: option.splits)
  have aw: "awaitedOK a i sl s' = awaitedOK a i sl s" for a i sl
    by (cases a) (simp_all add: awaitedOK_def eq cong: option.case_cong)
  have dn: "isDone a s' = isDone a s" for a
    by (cases a) (simp_all add: isDone_def awaitResult_def eq cong: option.case_cong)
  have tk: "taskOK t s' = taskOK t s" for t
  proof (cases t)
    case (AwaitCreate sl c it a)
    then show ?thesis by (cases sl) (simp_all add: eq id aw dn)
  next
    case (AwaitDuration sl c cn d)
    then show ?thesis by (cases sl) (simp_all add: eq id)
  qed
  have 1: "storeOK s'"
    using inv ix unfolding serialInv_def storeOK_def store_None_index eq by simp
  have 2: "freshNodes s'"
    using inv eq by (simp add: serialInv_def freshNodes_def)
  have 3: "idleOK s' = idleOK s"
    by (simp add: idleOK_def eq id)
  show ?thesis
    using inv 1 2 by (simp add: serialInv_def eq tk 3 cong: list.case_cong)
qed

lemma sameView_refl [simp]: "sameView s s"
  by (simp add: sameView_def)

lemma sameView_trans: "sameView s s' \<Longrightarrow> sameView s' s'' \<Longrightarrow> sameView s s''"
  by (simp add: sameView_def)

lemma index_sourceSelector [simp]:
  "map_option pi_index (store (snd (sourceSelector sel streams s)) a) = map_option pi_index (store s a)"
  "map_option pi_item (store (snd (sourceSelector sel streams s)) a) = map_option pi_item (store s a)"
  by (cases sel; simp add: selectStreams_def Let_def)+

lemma sameView_basic [simp]:
  "sameView s (setTimeout act d s)"
  "sameView s (clearTimeout t s)"
  "sameView s (closeNode cn s)"
  "sameView s (detach proto port k s)"
  "sameView s (onClose n s)"
  "sameView s (snd (sourceSelector sel streams s))"
  "sameView s (reject e s)"
  "sameView s (s\<lparr>closeCalls := x\<rparr>)"
  "sameView s (s\<lparr>switchCalls := y\<rparr>)"
  "sameView s (s\<lparr>mp4Info := z\<rparr>)"
  "sameView s (s\<lparr>precreate := w\<rparr>)"
  by (simp_all add: sameView_def)

lemma nextNode_precreateListeners: "nextNode s \<le> nextNode (precreateListeners xs s)"
  by (induction xs arbitrary: s) (auto simp: beginListener_def split: PlaylistSource.splits)

lemma sameView_setListener [simp]: "sameView s (setListener proto port l s)"
  by (simp add: sameView_def)

lemma sameView_precreateListeners [simp]: "sameView s (precreateListeners xs s)"
  by (simp add: sameView_def nextNode_precreateListeners)

lemma sameView_listenerCreated [simp]: "sameView s (listenerCreated s)"
proof (cases "precreate s")
  case None
  then show ?thesis by (simp add: listenerCreated_def)
next
  case (Some t)
  have "sameView s (setListener (pc_proto t) (pc_port t)
                      \<lparr>ln_node = Some (pc_node t), ln_onDisconnect = Map.empty\<rparr>
                      (s\<lparr>precreate := None\<rparr>))"
    by (simp add: sameView_def)
  from sameView_trans [OF this sameView_precreateListeners] show ?thesis
    using Some by (simp add: listenerCreated_def)
qed

lemma only_empty:
  assumes "\<And>r'. m r' \<noteq> None \<Longrightarrow> r' = r"
  shows "m(r := None) = Map.empty"
proof (rule ext)
  fix x
  show "(m(r := None)) x = None"
  proof (cases "m x")
    case None
    then show ?thesis by simp
  next
    case (Some y)
    then have "x = r" using assms [of x] by simp
    then show ?thesis by simp
  qed
qed

lemma serialInv_pending:
  assumes inv: "serialInv s" and rq: "requests s r = Some req"
  obtains slot c item where "tasks s = [AwaitCreate slot c item (OnRequest r)]"
    and "taskOK (AwaitCreate slot c item (OnRequest r)) s"
    and "req_subscribeIndex req = (case slot of SlotCurrent \<Rightarrow> c | SlotNext \<Rightarrow> Suc c)"
    and "req_subscribeSlot req = slot"
    and "\<And>r'. requests s r' \<noteq> None \<Longrightarrow> r' = r"
    and "nodes s r = None" and "r \<notin> set (rejectedRequests s)" and "r < nextNode s"
proof -
  have lt: "r < nextNode s"
  proof (rule ccontr)
    assume "\<not> r < nextNode s"
    then have "nextNode s \<le> r" by simp
    with inv have "requests s r = None"
      by (simp add: serialInv_def freshNodes_def)
    with rq show False by simp
  qed
  from inv rq obtain t where t: "tasks s = [t]" and ok: "taskOK t s"
    by (auto simp: serialInv_def idleOK_def split: list.splits)
  show thesis
  proof (cases t)
    case (AwaitCreate slot c item aw)
    have aw: "awaitedOK aw (case slot of SlotCurrent \<Rightarrow> c | SlotNext \<Rightarrow> Suc c) slot s"
      using ok AwaitCreate by (cases slot) simp_all
    show ?thesis
    proof (cases aw)
      case (OnRequest r')
      with aw rq have r: "r' = r" and all: "\<And>x. requests s x \<noteq> None \<Longrightarrow> x = r"
        by (auto simp: awaitedOK_def)
      with aw rq OnRequest have "req_subscribeIndex req = (case slot of SlotCurrent \<Rightarrow> c | SlotNext \<Rightarrow> Suc c)"
          "req_subscribeSlot req = slot" "nodes s r = None" "r \<notin> set (rejectedRequests s)"
        by (simp_all add: awaitedOK_def)
      with that [of slot c item] t ok AwaitCreate OnRequest r all lt show ?thesis
        by simp
    next
      case (Resolved cn dur)
      with aw rq show ?thesis by (simp add: awaitedOK_def)
    next
      case (Rejected e)
      with aw rq show ?thesis by (simp add: awaitedOK_def)
    qed
  next
    case (AwaitDuration slot c cn dur)
    with ok rq show ?thesis by (cases slot) simp_all
  qed
qed

lemma engineCreated_ok:
  assumes inv: "serialInv s"
  shows "serialInv (engineCreated r s)"
proof (cases "requests s r")
  case None
  with inv show ?thesis by (simp add: engineCreated_def)
next
  case (Some req)
  from inv have st: "storeOK s" and fr: "freshNodes s"
    by (simp_all add: serialInv_def)
  let ?info = "\<lparr>ici_node = r, ici_nodeId = req_id req,
                 ici_kind = nodeKind (item_source (req_item req)), ici_item = req_item req,
                 ici_streamKeyFilter = AcceptAll, ici_closeNode = closeNodeOf r req\<rparr>"
  let ?s0 = "s\<lparr>requests := (requests s)(r := None), nodes := (nodes s)(r \<mapsto> req)\<rparr>"
  let ?s' = "subscribeToNode (req_subscribeIndex req) (req_subscribeSlot req) ?info ?s0"
  have e: "engineCreated r s = ?s'"
    using Some by (simp add: engineCreated_def)
  from inv Some show ?thesis
  proof (rule serialInv_pending)
    fix slot c item
    assume t: "tasks s = [AwaitCreate slot c item (OnRequest r)]"
      and ok: "taskOK (AwaitCreate slot c item (OnRequest r)) s"
      and i: "req_subscribeIndex req = (case slot of SlotCurrent \<Rightarrow> c | SlotNext \<Rightarrow> Suc c)"
      and sl: "req_subscribeSlot req = slot"
      and only: "\<And>r'. requests s r' \<noteq> None \<Longrightarrow> r' = r"
      and lt: "r < nextNode s"
    have rq': "requests ?s' = Map.empty"
      using only_empty [of "requests s" r] only by simp
    have 1: "storeOK ?s'"
      using st by (simp add: storeOK_def subscribeToNode_def Let_def)
    have 2: "freshNodes ?s'"
      using fr lt by (simp add: freshNodes_def)
    have 3: "awaitedOK (OnRequest r) i' slot ?s'" for i'
      using rq' by (simp add: awaitedOK_def)
    have 4: "isDone (OnRequest r) ?s'"
      by (simp add: isDone_def awaitResult_def)
    have "taskOK (AwaitCreate slot c item (OnRequest r)) ?s'"
    proof (cases slot)
      case SlotCurrent
      with ok i sl 3 show ?thesis
        by (simp add: idxOf_alt subscribeToNode_view)
    next
      case SlotNext
      with ok obtain a where a: "playing_current s = Some a"
          "map_option pi_index (store s a) = Some c"
        by (auto simp: idxOf_alt bind_eq_Some_conv)
      then have "a \<noteq> nextAddr s"
        using st by (auto simp: storeOK_def)
      with SlotNext ok i sl 3 4 a show ?thesis
        by (simp add: idxOf_alt subscribeToNode_view)
    qed
    then show ?thesis
      unfolding e using 1 2 t by (simp add: serialInv_def)
  qed
qed

lemma engineFailed_ok:
  assumes inv: "serialInv s"
  shows "serialInv (engineFailed r s)"
proof (cases "requests s r")
  case None
  with inv show ?thesis by (simp add: engineFailed_def)
next
  case (Some req)
  from inv have st: "storeOK s" and fr: "freshNodes s"
    by (simp_all add: serialInv_def)
  let ?s' = "s\<lparr>requests := (requests s)(r := None), rejectedRequests := r # rejectedRequests s\<rparr>"
  have e: "engineFailed r s = ?s'"
    using Some by (simp add: engineFailed_def)
  from inv Some show ?thesis
  proof (rule serialInv_pending)
    fix slot c item
    assume t: "tasks s = [AwaitCreate slot c item (OnRequest r)]"
      and ok: "taskOK (AwaitCreate slot c item (OnRequest r)) s"
      and only: "\<And>r'. requests s r' \<noteq> None \<Longrightarrow> r' = r"
      and nd: "nodes s r = None" and nr: "r \<notin> set (rejectedRequests s)"
      and lt: "r < nextNode s"
    have rq': "requests ?s' = Map.empty"
      using only_empty [of "requests s" r] only by simp
    have 1: "storeOK ?s'"
      using st by (simp add: storeOK_def)
    have 2: "freshNodes ?s'"
      using fr lt by (auto simp: freshNodes_def)
    have 3: "awaitedOK (OnRequest r) i' slot ?s'" for i'
      using rq' by (simp add: awaitedOK_def)
    have 4: "\<not> isDone (OnRequest r) ?s'" "\<not> isDone (OnRequest r) s"
      using nd nr by (simp_all add: isDone_def awaitResult_def)
    have "taskOK (AwaitCreate slot c item (OnRequest r)) ?s'"
      using ok 3 4 by (cases slot) (simp_all add: idxOf_alt)
    then show ?thesis
      unfolding e using 1 2 t by (simp add: serialInv_def)
  qed
qed

lemma afterDuration_ok:
  assumes st: "storeOK s" and fr: "freshNodes s" and ta: "tasks s = []"
      and rq: "requests s = Map.empty" and si: "sourceIndex s = Suc c"
      and cu: "idxOf s (playing_current s) = Some c"
      and slc: "slot = SlotCurrent \<longrightarrow> playing_next s = None"
      and sln: "slot = SlotNext \<longrightarrow>
                  Suc c < length (playlist s) \<and> idxOf s (playing_next s) = Some (Suc c)"
  shows "serialInv (afterDuration slot c cn d s)"
proof (cases slot)
  case SlotCurrent
  let ?s1 = "writeBack (playing_current s) d cn s"
  have "storeOK ?s1"
    using st unfolding storeOK_def store_None_index by simp
  moreover have "idxOf ?s1 (playing_current ?s1) = Some c"
    using cu by (simp add: idxOf_alt)
  ultimately have "serialInv (update_tail c ?s1)"
    using fr ta rq si slc SlotCurrent
    by (intro tail_ok) (simp_all add: freshNodes_def)
  then show ?thesis
    using SlotCurrent by simp
next
  case SlotNext
  with sln obtain a where a: "playing_next s = Some a"
    by (auto simp: idxOf_alt bind_eq_Some_conv)
  let ?s1 = "writeBack (Some a) d cn s"
  have "storeOK ?s1"
    using st unfolding storeOK_def store_None_index by simp
  moreover have "idxOf ?s1 slot' = idxOf s slot'" for slot'
    by (simp add: idxOf_alt)
  ultimately have "serialInv ?s1"
    using fr ta rq si cu sln SlotNext a
    by (simp add: serialInv_def idleOK_def freshNodes_def)
  then show ?thesis
    using SlotNext a by simp
qed

lemma settled_no_requests:
  assumes "awaitedOK aw i slot s" and "awaitResult aw s \<noteq> NotYet"
  shows "requests s = Map.empty"
proof (cases aw)
  case (OnRequest r)
  with assms have only: "\<And>r'. requests s r' \<noteq> None \<Longrightarrow> r' = r" and "requests s r = None"
    by (auto simp: awaitedOK_def awaitResult_def split: option.splits if_splits)
  with only_empty [of "requests s" r] show ?thesis
    by (simp add: fun_upd_idem)
qed (use assms in \<open>simp_all add: awaitedOK_def\<close>)

lemma awaitResult_tasks [simp]: "awaitResult aw (s\<lparr>tasks := ts\<rparr>) = awaitResult aw s"
  by (cases aw) (simp_all add: awaitResult_def)

lemma resumeTask_ok:
  assumes inv: "serialInv s" and t: "tasks s = [t]"
      and r: "resumeTask t (s\<lparr>tasks := []\<rparr>) = Some s1"
  shows "serialInv s1"
proof -
  let ?s0 = "s\<lparr>tasks := []\<rparr>"
  from inv t have st: "storeOK ?s0" and fr: "freshNodes ?s0" and ok: "taskOK t s"
    by (simp_all add: serialInv_def storeOK_def freshNodes_def)
  have id: "idxOf ?s0 slot' = idxOf s slot'" for slot'
    by (simp add: idxOf_alt)
  show ?thesis
  proof (cases t)
    case (AwaitCreate slot c item aw)
    from ok AwaitCreate have si: "sourceIndex s = Suc c"
      and aw: "awaitedOK aw (case slot of SlotCurrent \<Rightarrow> c | SlotNext \<Rightarrow> Suc c) slot s"
      by (cases slot; simp)+
    show ?thesis
    proof (cases "awaitResult aw s")
      case NotYet
      with r AwaitCreate show ?thesis by simp
    next
      case (Failed e)
      then have rq: "requests s = Map.empty"
        using settled_no_requests [OF aw] by simp
      from Failed have "\<not> isDone aw s"
        by (simp add: isDone_def)
      with ok AwaitCreate have "playing_next s = None"
        by (cases slot) simp_all
      with r AwaitCreate Failed st fr rq show ?thesis
        by (auto simp: serialInv_def storeOK_def freshNodes_def idleOK_def reject_def)
    next
      case (Done cn dur)
      then have rq: "requests s = Map.empty"
        using settled_no_requests [OF aw] by simp
      from Done have dn: "isDone aw s"
        by (simp add: isDone_def)
      from ok AwaitCreate dn have cu: "idxOf s (playing_current s) = Some c"
        and slc: "slot = SlotCurrent \<longrightarrow> playing_next s = None"
        and sln: "slot = SlotNext \<longrightarrow>
                    Suc c < length (playlist s) \<and> idxOf s (playing_next s) = Some (Suc c)"
        by (cases slot; simp)+
      have s1: "s1 = afterCreate slot c item cn dur ?s0"
        using r AwaitCreate Done by simp
      show ?thesis
      proof (cases "truthyNumber (item_duration item)")
        case True
        have "serialInv (afterDuration slot c cn (item_duration item) ?s0)"
          using st fr rq si cu slc sln by (intro afterDuration_ok) (simp_all add: id)
        with True s1 show ?thesis
          by (simp add: afterCreate_def)
      next
        case False
        have "taskOK (AwaitDuration slot c cn dur) (suspend (AwaitDuration slot c cn dur) ?s0)"
          using rq si cu slc sln by (cases slot) (simp_all add: idxOf_alt)
        with False s1 st fr show ?thesis
          by (simp add: afterCreate_def serialInv_def storeOK_def freshNodes_def suspend_def)
      qed
    qed
  next
    case (AwaitDuration slot c cn dur)
    from ok AwaitDuration have si: "sourceIndex s = Suc c" and rq: "requests s = Map.empty"
      and cu: "idxOf s (playing_current s) = Some c"
      and slc: "slot = SlotCurrent \<longrightarrow> playing_next s = None"
      and sln: "slot = SlotNext \<longrightarrow>
                  Suc c < length (playlist s) \<and> idxOf s (playing_next s) = Some (Suc c)"
      by (cases slot; simp)+
    from r AwaitDuration obtain d where "s1 = afterDuration slot c cn d ?s0"
      by (auto split: DurationPromise.splits option.splits)
    moreover have "serialInv (afterDuration slot c cn d ?s0)" for d
      using st fr rq si cu slc sln by (intro afterDuration_ok) (simp_all add: id)
    ultimately show ?thesis by simp
  qed
qed

lemma resume_ok:
  assumes inv: "serialInv s"
  shows "serialInv (handle (Resume k) s)"
proof (cases "k < length (tasks s)")
  case False
  with inv show ?thesis by simp
next
  case True
  with inv obtain t where t: "tasks s = [t]" and k: "k = 0"
    by (auto simp: serialInv_def split: list.splits)
  show ?thesis
  proof (cases "resumeTask t (s\<lparr>tasks := []\<rparr>)")
    case None
    with inv t k show ?thesis by simp
  next
    case (Some s1)
    from resumeTask_ok [OF inv t Some] show ?thesis
      using t k Some by simp
  qed
qed

lemma handle_ok:
  assumes inv: "serialInv s" and guard: "callsUpdate ev s \<longrightarrow> tasks s = []"
  shows "serialInv (handle ev s)"
proof (cases ev)
  case Switch
  with inv guard show ?thesis by (simp add: update_ok)
next
  case (EngineCreated r)
  with inv show ?thesis by (simp add: engineCreated_ok)
next
  case (EngineFailed r)
  with inv show ?thesis by (simp add: engineFailed_ok)
next
  case (Resume k)
  with inv show ?thesis by (simp only: resume_ok)
next
  case (TimerFires tid)
  show ?thesis
  proof (cases "find (\<lambda>x. timer_id x = tid) (timers s)")
    case None
    with inv TimerFires show ?thesis by simp
  next
    case (Some tm)
    let ?u = "clearTimeout tid s"
    have u: "serialInv ?u"
      using inv by (rule serialInv_sameView [rotated]) simp
    show ?thesis
    proof (cases "timer_action tm")
      case (DurationTimer c)
      with guard TimerFires Some have "tasks ?u = []" by simp
      from update_ok [OF u this] have "serialInv (update ?u)" .
      moreover from this have "serialInv (setTimeout (CloseTimer x) 1000 (update ?u))" for x
        by (rule serialInv_sameView [rotated]) simp
      ultimately show ?thesis
        using TimerFires Some DurationTimer by (simp add: fireTimer_def Let_def)
    next
      case (CloseTimer close)
      have "serialInv (closeNode cn ?u)" for cn
        using u by (rule serialInv_sameView [rotated]) simp
      with u TimerFires Some CloseTimer show ?thesis
        by (simp add: fireTimer_def split: option.splits)
    next
      case (NodeCloseTimer n)
      have "serialInv (?u\<lparr>closeCalls := x\<rparr>)" for x
        using u by (rule serialInv_sameView [rotated]) simp
      with TimerFires Some NodeCloseTimer show ?thesis
        by (simp add: fireTimer_def)
    next
      case (SwitchTimer pin)
      have "serialInv (?u\<lparr>switchCalls := x\<rparr>)" for x
        using u by (rule serialInv_sameView [rotated]) simp
      with TimerFires Some SwitchTimer show ?thesis
        by (simp add: fireTimer_def)
    qed
  qed
next
  case (Eof r)
  show ?thesis
  proof (cases "callsUpdate ev s")
    case False
    with inv Eof show ?thesis by (auto split: option.splits)
  next
    case True
    with Eof obtain req where req: "nodes s r = Some req" "isFile (item_source (req_item req))"
      by (auto split: option.splits)
    let ?u = "closeNode (closeNodeOf r req) s"
    have "serialInv ?u"
      using inv by (rule serialInv_sameView [rotated]) simp
    moreover have "tasks ?u = []"
      using guard True by simp
    ultimately have "serialInv (update ?u)" by (rule update_ok)
    with Eof req show ?thesis by simp
  qed
next
  case (ConnectionStatusChange r)
  show ?thesis
  proof (cases "callsUpdate ev s")
    case False
    with inv ConnectionStatusChange show ?thesis by (auto split: option.splits)
  next
    case True
    with ConnectionStatusChange obtain req where req: "nodes s r = Some req"
        "isSrtCaller (item_source (req_item req))"
      by (auto split: option.splits)
    let ?u = "closeNode (closeNodeOf r req) s"
    have "serialInv ?u"
      using inv by (rule serialInv_sameView [rotated]) simp
    moreover have "tasks ?u = []"
      using guard True by simp
    ultimately have "serialInv (update ?u)" by (rule update_ok)
    with ConnectionStatusChange req show ?thesis by simp
  qed
next
  case (Disconnect proto port key name)
  show ?thesis
  proof (cases "callsUpdate ev s")
    case False
    with inv Disconnect show ?thesis
      by (auto simp: callbackAt_def split: option.splits DisconnectCb.splits)
  next
    case True
    with guard have "serialInv (update s)"
      using inv by (simp add: update_ok)
    moreover from this have "serialInv (detach proto port k (update s))" for k
      by (rule serialInv_sameView [rotated]) simp
    ultimately have "serialInv (runDisconnectCb proto port cb name s)" for cb
      using inv by (cases cb) (simp_all add: Let_def)
    then show ?thesis
      using Disconnect inv by (simp split: option.splits)
  qed
next
  case (NodeClosed r)
  have "serialInv (onClose r s)"
    using inv by (rule serialInv_sameView [rotated]) simp
  with inv NodeClosed show ?thesis by (simp split: option.splits)
next
  case (Streams k streams)
  have "serialInv (snd (sourceSelector sel streams s))" for sel
    using inv by (rule serialInv_sameView [rotated]) simp
  with inv Streams show ?thesis by simp
next
  case (Mp4Info r d)
  have "serialInv (s\<lparr>mp4Info := x\<rparr>)" for x
    using inv by (rule serialInv_sameView [rotated]) simp
  with inv Mp4Info show ?thesis by (simp split: option.splits)
next
  case ListenerCreated
  have "serialInv (listenerCreated s)"
    using inv by (rule serialInv_sameView [rotated]) simp
  with ListenerCreated show ?thesis by simp
next
  case ListenerFailed
  have "serialInv (s\<lparr>precreate := None\<rparr>)"
    using inv by (rule serialInv_sameView [rotated]) simp
  with ListenerFailed show ?thesis by (simp add: listenerFailed_def)
qed

lemma runSerial_ok: "serialInv s \<Longrightarrow> runSerial evs s = Some s' \<Longrightarrow> serialInv s'"
proof (induction evs arbitrary: s)
  case Nil
  then show ?case by simp
next
  case (Cons ev evs)
  from Cons.prems(2) have g: "\<not> (\<not> exited s \<and> callsUpdate ev s \<and> tasks s \<noteq> [])"
    and r: "runSerial evs (step ev s) = Some s'"
    by (simp_all split: if_splits)
  have "serialInv (step ev s)"
  proof (cases "exited s")
    case True
    with Cons.prems(1) show ?thesis by (simp add: step_def)
  next
    case False
    with g have "callsUpdate ev s \<longrightarrow> tasks s = []" by simp
    from handle_ok [OF Cons.prems(1) this] False show ?thesis
      by (simp add: step_def)
  qed
  from Cons.IH [OF this r] show ?case .
qed

lemma serialInv_create: "serialInv (Playlist_create pl td)"
proof -
  have "serialInv (Playlist_new pl td)"
    by (simp add: serialInv_def storeOK_def freshNodes_def idleOK_def Playlist_new_def)
  then show ?thesis
    unfolding Playlist_create_def by (rule serialInv_sameView [rotated]) simp
qed

lemma nextFollowsCurrent_idx:
  "nextFollowsCurrent s \<longleftrightarrow>
     (\<forall>c n. idxOf s (playing_current s) = Some c \<longrightarrow> idxOf s (playing_next s) = Some n \<longrightarrow> n = c + 1)"
  by (auto simp: nextFollowsCurrent_def idxOf_def split: option.splits)

lemma idxOf_None [simp]: "idxOf s None = None"
  by (simp add: idxOf_def lookupItem_def)

lemma serialInv_follows:
  assumes "serialInv s"
  shows "nextFollowsCurrent s"
proof (cases "tasks s")
  case Nil
  with assms show ?thesis
    by (cases "playing_next s") (auto simp: serialInv_def idleOK_def nextFollowsCurrent_idx)
next
  case (Cons t ts)
  with assms have t: "tasks s = [t]" and ok: "taskOK t s"
    by (auto simp: serialInv_def split: list.splits)
  show ?thesis
  proof (cases t)
    case (AwaitCreate slot c item aw)
    with ok show ?thesis
      by (cases slot) (auto simp: nextFollowsCurrent_idx split: if_splits)
  next
    case (AwaitDuration slot c cn dur)
    with ok show ?thesis
      by (cases slot) (auto simp: nextFollowsCurrent_idx)
  qed
qed

subsection \<open>The next slot holds a live source, in every run\<close>

lemma nextIsLive_alt:
  "nextIsLive s \<longleftrightarrow>
     (\<forall>n. playing_next s = Some n \<longrightarrow>
          (\<exists>it. map_option pi_item (store s n) = Some it \<and> isLive (item_source it)))"
  by (auto simp: nextIsLive_def split: option.splits)

lemma store_None_item: "(store s a = None) = (map_option pi_item (store s a) = None)"
  by simp

lemma liveInv_cong:
  assumes "playing_next s' = playing_next s" and "requests s' = requests s"
      and "nextAddr s' = nextAddr s"
      and "\<And>a. map_option pi_item (store s' a) = map_option pi_item (store s a)"
      and "liveInv s"
  shows "liveInv s'"
  using assms unfolding liveInv_def nextIsLive_alt storeOK_def store_None_item by simp

lemma liveInv_sameView: "sameView s s' \<Longrightarrow> liveInv s \<Longrightarrow> liveInv s'"
  by (rule liveInv_cong) (simp_all add: sameView_def)

lemma create_live:
  assumes inv: "liveInv s" and sl: "slot = SlotNext \<longrightarrow> isLive (item_source item)"
  shows "liveInv (snd (createNode item c i slot s))"
proof -
  let ?r = "createNode item c i slot s"
  from createNode_view [of item i slot s c]
  consider (req) "requested item i slot s ?r" | (rej) e where "?r = (Rejected e, s)"
    | (sub) "subscribed item i slot s ?r"
    by blast
  then show ?thesis
  proof cases
    case req
    then obtain q where q: "requests (snd ?r) = (requests s)(nextNode s \<mapsto> q)"
        "req_subscribeSlot q = slot" "req_item q = item"
      and s: "store (snd ?r) = store s" "nextAddr (snd ?r) = nextAddr s"
        "playing_next (snd ?r) = playing_next s"
      by (auto simp: requested_def)
    show ?thesis
      using inv sl q s unfolding liveInv_def nextIsLive_alt storeOK_def
      by auto
  next
    case rej
    with inv show ?thesis by simp
  next
    case sub
    then have it: "\<And>a. map_option pi_item (store (snd ?r) a)
                      = (if a = nextAddr s then Some item else map_option pi_item (store s a))"
      and na: "nextAddr (snd ?r) = Suc (nextAddr s)"
      and pn: "playing_next (snd ?r) = (if slot = SlotNext then Some (nextAddr s) else playing_next s)"
      and rq: "requests (snd ?r) = requests s"
      by (auto simp: subscribed_def)
    from inv have st: "\<And>a. nextAddr s \<le> a \<Longrightarrow> map_option pi_item (store s a) = None"
      by (simp add: liveInv_def storeOK_def)
    have 1: "storeOK (snd ?r)"
      unfolding storeOK_def store_None_item using st na it by simp
    have 2: "nextIsLive (snd ?r)"
    proof (cases slot)
      case SlotCurrent
      with inv pn it st show ?thesis
        unfolding liveInv_def nextIsLive_alt by (auto simp del: map_option_eq_Some)
    next
      case SlotNext
      with sl pn it show ?thesis
        unfolding nextIsLive_alt by simp
    qed
    show ?thesis
      using inv 1 2 rq by (simp add: liveInv_def)
  qed
qed

lemma suspend_live: "liveInv s \<Longrightarrow> liveInv (suspend t s)"
  by (rule liveInv_cong) simp_all

lemma update_tail_live:
  assumes "liveInv s"
  shows "liveInv (update_tail c s)"
proof -
  have 1: "liveInv (scheduleDuration c s)"
    using assms by (rule liveInv_cong [rotated 4]) simp_all
  show ?thesis
  proof (cases "c + 1 < length (playlist s) \<and> isLive (item_source (playlist s ! (c + 1)))")
    case True
    then have "liveInv (snd (createNode (playlist s ! (c + 1)) c (c + 1) SlotNext
                               (scheduleDuration c s)))"
      using 1 by (intro create_live) simp_all
    then show ?thesis
      using True by (simp add: update_tail_def prewarm_def Let_def case_prod_beta suspend_live)
  next
    case False
    with 1 show ?thesis
      by (auto simp: update_tail_def prewarm_def Let_def)
  qed
qed

lemma afterDuration_live:
  assumes "liveInv s"
  shows "liveInv (afterDuration slot c cn d s)"
proof -
  have w: "liveInv (writeBack x d cn s)" for x
    using assms by (rule liveInv_cong [rotated 4]) simp_all
  have r: "liveInv (reject e s)" for e
    using assms by (rule liveInv_cong [rotated 4]) simp_all
  show ?thesis
    by (cases slot) (simp_all add: update_tail_live w r split: option.splits)
qed

lemma resumeTask_live:
  assumes "liveInv s" and "resumeTask t s = Some s1"
  shows "liveInv s1"
proof -
  have r: "liveInv (reject e s)" for e
    using assms(1) by (rule liveInv_cong [rotated 4]) simp_all
  have "liveInv (afterCreate slot c item cn dur s)" for slot c item cn dur
    by (simp add: afterCreate_def afterDuration_live suspend_live assms(1))
  with assms r show ?thesis
    by (cases t)
       (auto simp: afterDuration_live split: AwaitResult.splits DurationPromise.splits option.splits)
qed

lemma update_live:
  assumes inv: "liveInv s"
  shows "liveInv (update s)"
proof -
  let ?s1 = "clearTimeouts (timeouts s) s"
  let ?c = "sourceIndex s"
  have 1: "liveInv ?s1"
    using inv by (rule liveInv_cong [rotated 4]) simp_all
  show ?thesis
  proof (cases "length (playlist s) \<le> ?c")
    case True
    then have "update s = ?s1\<lparr>sourceIndex := Suc ?c, exited := True\<rparr>"
      by (simp add: update_def Let_def)
    moreover have "liveInv (?s1\<lparr>sourceIndex := Suc ?c, exited := True\<rparr>)"
      using 1 by (rule liveInv_cong [rotated 4]) simp_all
    ultimately show ?thesis by simp
  next
    case False
    show ?thesis
    proof (cases "playing_next s")
      case None
      let ?s2 = "?s1\<lparr>sourceIndex := Suc ?c, playing_prev := playing_current s\<rparr>"
      have "liveInv ?s2"
        using 1 by (rule liveInv_cong [rotated 4]) simp_all
      then have "liveInv (snd (createNode (playlist s ! ?c) ?c ?c SlotCurrent ?s2))"
        by (rule create_live) simp
      then show ?thesis
        using False None by (simp add: update_def Let_def case_prod_beta suspend_live)
    next
      case (Some n)
      let ?s2 = "?s1\<lparr>sourceIndex := Suc ?c, playing_prev := playing_current s,
                       playing_current := Some n, playing_next := None\<rparr>"
      have "liveInv ?s2"
        using 1 by (simp add: liveInv_def nextIsLive_def storeOK_def)
      then have "liveInv (refreshActive ?s2)"
        by (rule liveInv_cong [rotated 4]) simp_all
      then have "liveInv (update_tail ?c (refreshActive ?s2))"
        by (rule update_tail_live)
      then show ?thesis
        using False Some by (simp add: update_def Let_def)
    qed
  qed
qed

lemma engineCreated_live:
  assumes inv: "liveInv s"
  shows "liveInv (engineCreated r s)"
proof (cases "requests s r")
  case None
  with inv show ?thesis by (simp add: engineCreated_def)
next
  case (Some req)
  let ?info = "\<lparr>ici_node = r, ici_nodeId = req_id req,
                 ici_kind = nodeKind (item_source (req_item req)), ici_item = req_item req,
                 ici_streamKeyFilter = AcceptAll, ici_closeNode = closeNodeOf r req\<rparr>"
  let ?s0 = "s\<lparr>requests := (requests s)(r := None), nodes := (nodes s)(r \<mapsto> req)\<rparr>"
  let ?s' = "subscribeToNode (req_subscribeIndex req) (req_subscribeSlot req) ?info ?s0"
  from inv Some have lv: "req_subscribeSlot req = SlotNext \<longrightarrow> isLive (item_source (req_item req))"
    by (simp add: liveInv_def)
  from inv have st: "\<And>a. nextAddr s \<le> a \<Longrightarrow> map_option pi_item (store s a) = None"
    by (simp add: liveInv_def storeOK_def)
  have 1: "storeOK ?s'"
    unfolding storeOK_def store_None_item using st by (simp add: subscribeToNode_view)
  have 2: "nextIsLive ?s'"
  proof (cases "req_subscribeSlot req")
    case SlotCurrent
    with inv st show ?thesis
      unfolding liveInv_def nextIsLive_alt
      by (auto simp: subscribeToNode_view simp del: map_option_eq_Some)
  next
    case SlotNext
    with lv show ?thesis
      unfolding nextIsLive_alt by (simp add: subscribeToNode_view)
  qed
  have 3: "requests ?s' r' = Some q \<Longrightarrow> requests s r' = Some q" for r' q
    by (simp split: if_splits)
  have 4: "\<forall>r' q. requests ?s' r' = Some q \<longrightarrow> req_subscribeSlot q = SlotNext \<longrightarrow>
             isLive (item_source (req_item q))"
  proof (intro allI impI)
    fix r' q
    assume q: "requests ?s' r' = Some q" and n: "req_subscribeSlot q = SlotNext"
    from q have "requests s r' = Some q" by (rule 3)
    with inv n show "isLive (item_source (req_item q))"
      unfolding liveInv_def by blast
  qed
  have e: "engineCreated r s = ?s'"
    using Some by (simp add: engineCreated_def)
  show ?thesis
    unfolding e liveInv_def using 1 2 4 by (intro conjI)
qed

lemma engineFailed_live:
  assumes inv: "liveInv s"
  shows "liveInv (engineFailed r s)"
proof (cases "requests s r")
  case None
  with inv show ?thesis by (simp add: engineFailed_def)
next
  case (Some req)
  let ?s' = "s\<lparr>requests := (requests s)(r := None), rejectedRequests := r # rejectedRequests s\<rparr>"
  have e: "engineFailed r s = ?s'"
    using Some by (simp add: engineFailed_def)
  have 1: "storeOK ?s'" "nextIsLive ?s'"
    using inv by (simp_all add: liveInv_def storeOK_def nextIsLive_alt)
  have 3: "requests ?s' r' = Some q \<Longrightarrow> requests s r' = Some q" for r' q
    by (simp split: if_splits)
  have 4: "\<forall>r' q. requests ?s' r' = Some q \<longrightarrow> req_subscribeSlot q = SlotNext \<longrightarrow>
             isLive (item_source (req_item q))"
  proof (intro allI impI)
    fix r' q
    assume q: "requests ?s' r' = Some q" and n: "req_subscribeSlot q = SlotNext"
    from q have "requests s r' = Some q" by (rule 3)
    with inv n show "isLive (item_source (req_item q))"
      unfolding liveInv_def by blast
  qed
  show ?thesis
    unfolding e liveInv_def using 1 4 by (intro conjI)
qed

lemma handle_live:
  assumes inv: "liveInv s"
  shows "liveInv (handle ev s)"
proof (cases ev)
  case Switch
  with inv show ?thesis by (simp add: update_live)
next
  case (EngineCreated r)
  with inv show ?thesis by (simp add: engineCreated_live)
next
  case (EngineFailed r)
  with inv show ?thesis by (simp add: engineFailed_live)
next
  case (Resume k)
  have "liveInv (s\<lparr>tasks := ts\<rparr>)" for ts
    using inv by (rule liveInv_cong [rotated 4]) simp_all
  with inv Resume show ?thesis
    by (auto split: option.splits dest: resumeTask_live [rotated])
next
  case (TimerFires tid)
  have u: "liveInv (clearTimeout tid s)"
    using inv by (rule liveInv_sameView [rotated]) simp
  have "liveInv (fireTimer tm (clearTimeout tid s))" for tm
  proof (cases "timer_action tm")
    case (DurationTimer c)
    have "liveInv (setTimeout (CloseTimer x) 1000 (update (clearTimeout tid s)))" for x
      using update_live [OF u] by (rule liveInv_sameView [rotated]) simp
    with DurationTimer update_live [OF u] show ?thesis
      by (simp add: fireTimer_def Let_def)
  next
    case (CloseTimer close)
    have "liveInv (closeNode cn (clearTimeout tid s))" for cn
      using u by (rule liveInv_sameView [rotated]) simp
    with CloseTimer u show ?thesis
      by (simp add: fireTimer_def split: option.splits)
  next
    case (NodeCloseTimer n)
    have "liveInv ((clearTimeout tid s)\<lparr>closeCalls := x\<rparr>)" for x
      using u by (rule liveInv_sameView [rotated]) simp
    with NodeCloseTimer show ?thesis by (simp add: fireTimer_def)
  next
    case (SwitchTimer pin)
    have "liveInv ((clearTimeout tid s)\<lparr>switchCalls := x\<rparr>)" for x
      using u by (rule liveInv_sameView [rotated]) simp
    with SwitchTimer show ?thesis by (simp add: fireTimer_def)
  qed
  with inv TimerFires show ?thesis by (simp split: option.splits)
next
  case (Eof r)
  have "liveInv (update (closeNode cn s))" for cn
    by (rule update_live) (rule liveInv_sameView [OF _ inv], simp)
  with inv Eof show ?thesis by (simp split: option.splits)
next
  case (ConnectionStatusChange r)
  have "liveInv (update (closeNode cn s))" for cn
    by (rule update_live) (rule liveInv_sameView [OF _ inv], simp)
  with inv ConnectionStatusChange show ?thesis by (simp split: option.splits)
next
  case (Disconnect proto port key name)
  have "liveInv (detach proto port k (update s))" for k
    using update_live [OF inv] by (rule liveInv_sameView [rotated]) simp
  then have "liveInv (runDisconnectCb proto port cb name s)" for cb
    using inv update_live [OF inv] by (cases cb) (simp_all add: Let_def)
  with inv Disconnect show ?thesis by (simp split: option.splits)
next
  case (NodeClosed r)
  have "liveInv (onClose r s)"
    using inv by (rule liveInv_sameView [rotated]) simp
  with inv NodeClosed show ?thesis by (simp split: option.splits)
next
  case (Streams k streams)
  have "liveInv (snd (sourceSelector sel streams s))" for sel
    using inv by (rule liveInv_sameView [rotated]) simp
  with inv Streams show ?thesis by simp
next
  case (Mp4Info r d)
  have "liveInv (s\<lparr>mp4Info := x\<rparr>)" for x
    using inv by (rule liveInv_sameView [rotated]) simp
  with inv Mp4Info show ?thesis by (simp split: option.splits)
next
  case ListenerCreated
  have "liveInv (listenerCreated s)"
    using inv by (rule liveInv_sameView [rotated]) simp
  with ListenerCreated show ?thesis by simp
next
  case ListenerFailed
  have "liveInv (s\<lparr>precreate := None\<rparr>)"
    using inv by (rule liveInv_sameView [rotated]) simp
  with ListenerFailed show ?thesis by (simp add: listenerFailed_def)
qed

lemma run_live: "liveInv s \<Longrightarrow> liveInv (run evs s)"
proof (induction evs arbitrary: s)
  case Nil
  then show ?case by simp
next
  case (Cons ev evs)
  from Cons.prems have "liveInv (step ev s)"
    by (simp add: step_def handle_live)
  from Cons.IH [OF this] show ?case by simp
qed

lemma liveInv_create: "liveInv (Playlist_create pl td)"
proof -
  have "liveInv (Playlist_new pl td)"
    by (simp add: liveInv_def storeOK_def nextIsLive_def Playlist_new_def)
  then show ?thesis
    unfolding Playlist_create_def by (rule liveInv_sameView [rotated]) simp
qed

text \<open>
  C6, as the claim states it, fails when invocations of \<^verbatim>\<open>update()\<close> overlap. The playlist
  is a file, an RTP source and a file. \<^verbatim>\<open>start()\<close> plays item 0 and begins to prewarm item 1;
  while the engine still creates that node, \<^verbatim>\<open>switch()\<close> makes item 1 the current item with a
  node of its own; then the prewarmed node arrives and fills the next slot. Both slots now
  hold index 1.
\<close>

theorem slot_order_counterexample:
  "idxOf switchDuringPrewarm (playing_current switchDuringPrewarm) = Some 1
   \<and> idxOf switchDuringPrewarm (playing_next switchDuringPrewarm) = Some 1
   \<and> \<not> nextFollowsCurrent switchDuringPrewarm"
  by (simp add: switchDuringPrewarm_def idxOf_def nextFollowsCurrent_def model_defs
        ts5000_def rtpItem_def tsFile_def)

text \<open>
  C6, amended. In every state that the controller can reach, the next slot, when populated,
  holds a live source. In every state reached by a run in which no \<^verbatim>\<open>update()\<close> is called
  while an earlier invocation of it is suspended, the next slot's index is the current slot's
  index plus one whenever both are populated. The states right after \<^verbatim>\<open>update()\<close> has promoted
  the next item, and right after the prewarmed node has filled the next slot, are among them.
\<close>

theorem slot_order_when_serial:
  "nextIsLive (run evs (Playlist_create pl td))
   \<and> (runSerial evs (Playlist_create pl td) = Some s \<longrightarrow> nextFollowsCurrent s)"
proof
  show "nextIsLive (run evs (Playlist_create pl td))"
    using run_live [OF liveInv_create, of evs pl td] by (simp add: liveInv_def)
next
  show "runSerial evs (Playlist_create pl td) = Some s \<longrightarrow> nextFollowsCurrent s"
    using runSerial_ok [OF serialInv_create] serialInv_follows by blast
qed

theorem slot_order_when_serial_witness:
  "runSerial [Switch, EngineCreated 0, Resume 0, EngineCreated 1]
     (Playlist_create [ts5000, rtpItem, tsFile] None)
     = Some (run [Switch, EngineCreated 0, Resume 0, EngineCreated 1]
               (Playlist_create [ts5000, rtpItem, tsFile] None))
   \<and> idxOf (run [Switch, EngineCreated 0, Resume 0, EngineCreated 1]
               (Playlist_create [ts5000, rtpItem, tsFile] None))
        (playing_next (run [Switch, EngineCreated 0, Resume 0, EngineCreated 1]
               (Playlist_create [ts5000, rtpItem, tsFile] None))) = Some 1
   \<and> nextFollowsCurrent (run [Switch, EngineCreated 0, Resume 0, EngineCreated 1]
                           (Playlist_create [ts5000, rtpItem, tsFile] None))"
proof -
  let ?evs = "[Switch, EngineCreated 0, Resume 0, EngineCreated 1]"
  let ?s = "run ?evs (Playlist_create [ts5000, rtpItem, tsFile] None)"
  have a: "runSerial ?evs (Playlist_create [ts5000, rtpItem, tsFile] None) = Some ?s"
    by (simp add: model_defs ts5000_def rtpItem_def tsFile_def)
  have b: "idxOf ?s (playing_next ?s) = Some 1"
    by (simp add: idxOf_def model_defs ts5000_def rtpItem_def tsFile_def)
  show ?thesis
    using a b slot_order_when_serial [of ?evs "[ts5000, rtpItem, tsFile]" None ?s]
    by blast
qed

subsection \<open>Duration timers when invocations of update do not overlap\<close>

lemma durationForCurrentD:
  "durationForCurrent s \<Longrightarrow> t \<in> set (durationPending s) \<Longrightarrow> timer_action t = DurationTimer c \<Longrightarrow>
   sourceIndex s = Suc c"
  by (simp add: durationForCurrent_def)

lemma durationForCurrent_sub:
  assumes sub: "set (durationPending s') \<subseteq> set (durationPending s)"
      and si: "sourceIndex s' = sourceIndex s" and d: "durationForCurrent s"
  shows "durationForCurrent s'"
  unfolding durationForCurrent_def
proof (intro allI impI)
  fix t c
  assume "t \<in> set (durationPending s')" and a: "timer_action t = DurationTimer c"
  with sub have "t \<in> set (durationPending s)" by (simp add: subsetD)
  from durationForCurrentD [OF d this a] si show "sourceIndex s' = Suc c" by simp
qed

lemma durationForCurrent_none: "durationPending s = [] \<Longrightarrow> durationForCurrent s"
  by (simp add: durationForCurrent_def)

lemma durationPending_same: "timers s' = timers s \<Longrightarrow> durationPending s' = durationPending s"
  by (simp add: durationPending_def)

lemma durationPending_setTimeout:
  "\<not> isDurationTimer act \<Longrightarrow> durationPending (setTimeout act d s) = durationPending s"
  by (simp add: durationPending_def setTimeout_def)

lemma durationPending_refreshActive [simp]: "durationPending (refreshActive s) = durationPending s"
  by (simp add: durationPending_def refreshActive_def activateSource_def setTimeout_def
        split: option.splits)

lemma durationPending_sourceSelector [simp]:
  "durationPending (snd (sourceSelector sel streams s)) = durationPending s"
proof (cases sel)
  case (SelectStreams idx f kind st)
  have "durationPending (setReady st r s) = durationPending s" for r
    by (rule durationPending_same) simp
  then show ?thesis
    using SelectStreams by (simp add: selectStreams_def Let_def)
next
  case (SelectSilence idx)
  then show ?thesis by simp
qed

lemma durationPending_clearTimeout_sub:
  "set (durationPending (clearTimeout k s)) \<subseteq> set (durationPending s)"
  by (auto simp: durationPending_def clearTimeout_def)

lemma durationForCurrent_update_tail:
  assumes "durationForCurrent s" and "sourceIndex s = Suc c"
  shows "durationForCurrent (update_tail c s)"
  unfolding durationForCurrent_def
proof (intro allI impI)
  fix t c'
  assume t: "t \<in> set (durationPending (update_tail c s))"
    and a: "timer_action t = DurationTimer c'"
  have "durationPending (update_tail c s) = durationPending (scheduleDuration c s)"
    by (rule durationPending_same) (simp add: update_tail_def)
  moreover have "set (durationPending (scheduleDuration c s))
                   \<subseteq> set (durationPending s) \<union> {t. timer_action t = DurationTimer c}"
    by (auto simp: durationPending_def scheduleDuration_def setTimeout_def Let_def
             split: option.splits)
  ultimately have "t \<in> set (durationPending s) \<or> timer_action t = DurationTimer c"
    using t by auto
  then show "sourceIndex (update_tail c s) = Suc c'"
  proof
    assume "t \<in> set (durationPending s)"
    with assms(1) a have "sourceIndex s = Suc c'"
      by (simp add: durationForCurrentD)
    then show ?thesis by simp
  next
    assume "timer_action t = DurationTimer c"
    with a have "c' = c" by simp
    with assms(2) show ?thesis by simp
  qed
qed

lemma durationForCurrent_update:
  assumes "timersTracked s"
  shows "durationForCurrent (update s)"
proof -
  let ?s1 = "clearTimeouts (timeouts s) s"
  let ?c = "sourceIndex s"
  have n: "durationPending ?s1 = []"
    using assms by (rule cleared_none_pending)
  show ?thesis
  proof (cases "length (playlist s) \<le> ?c")
    case True
    then have "update s = ?s1\<lparr>sourceIndex := Suc ?c, exited := True\<rparr>"
      by (simp add: update_def Let_def)
    then have "durationPending (update s) = durationPending ?s1"
      by (simp add: durationPending_def)
    with n show ?thesis by (simp add: durationForCurrent_none)
  next
    case False
    show ?thesis
    proof (cases "playing_next s")
      case None
      with False have "timers (update s) = timers ?s1"
        by (simp add: update_def Let_def case_prod_beta)
      then have "durationPending (update s) = durationPending ?s1"
        by (rule durationPending_same)
      with n show ?thesis by (simp add: durationForCurrent_none)
    next
      case (Some m)
      let ?s3 = "refreshActive (?s1\<lparr>sourceIndex := Suc ?c, playing_prev := playing_current s,
                                     playing_current := Some m, playing_next := None\<rparr>)"
      have u: "update s = update_tail ?c ?s3"
        using False Some by (simp add: update_def Let_def)
      have "durationPending ?s3 = durationPending ?s1"
        by (simp only: durationPending_refreshActive) (simp add: durationPending_def)
      with n have "durationForCurrent ?s3"
        by (simp add: durationForCurrent_none)
      then show ?thesis
        unfolding u by (rule durationForCurrent_update_tail) simp
    qed
  qed
qed

lemma durationForCurrent_afterDuration:
  assumes d: "durationForCurrent s" and si: "sourceIndex s = Suc c"
  shows "durationForCurrent (afterDuration slot c cn d' s)"
proof (cases slot)
  case SlotCurrent
  have "durationForCurrent (writeBack (playing_current s) d' cn s)"
    using _ _ d by (rule durationForCurrent_sub) (simp_all add: durationPending_def)
  then have "durationForCurrent (update_tail c (writeBack (playing_current s) d' cn s))"
    by (rule durationForCurrent_update_tail) (simp add: si)
  then show ?thesis
    using SlotCurrent by simp
next
  case SlotNext
  have "durationForCurrent (writeBack x d' cn s)" for x
    using _ _ d by (rule durationForCurrent_sub) (simp_all add: durationPending_def)
  moreover have "durationForCurrent (reject e s)" for e
    using _ _ d by (rule durationForCurrent_sub) (simp_all add: durationPending_def)
  ultimately show ?thesis
    using SlotNext by (simp split: option.splits)
qed

lemma taskOK_sourceIndex:
  "taskOK (AwaitCreate slot c item aw) s \<Longrightarrow> sourceIndex s = Suc c"
  "taskOK (AwaitDuration slot c cn dur) s \<Longrightarrow> sourceIndex s = Suc c"
  by (cases slot; simp)+

lemma durationForCurrent_resumeTask:
  assumes inv: "serialInv s" and t: "tasks s = [t]" and d: "durationForCurrent s"
      and r: "resumeTask t (s\<lparr>tasks := []\<rparr>) = Some s1"
  shows "durationForCurrent s1"
proof -
  let ?s0 = "s\<lparr>tasks := []\<rparr>"
  from inv t have ok: "taskOK t s"
    by (simp add: serialInv_def)
  have d0: "durationForCurrent ?s0"
    using _ _ d by (rule durationForCurrent_sub) (simp_all add: durationPending_def)
  have rj: "durationForCurrent (reject e ?s0)" for e
    using _ _ d0 by (rule durationForCurrent_sub) (simp_all add: durationPending_def)
  have sp: "durationForCurrent (suspend x ?s0)" for x
    using _ _ d0 by (rule durationForCurrent_sub) (simp_all add: durationPending_def)
  show ?thesis
  proof (cases t)
    case (AwaitCreate slot c item aw)
    with ok have si: "sourceIndex ?s0 = Suc c"
      by (simp add: taskOK_sourceIndex)
    have "durationForCurrent (afterCreate slot c item cn dur ?s0)" for cn dur
      using durationForCurrent_afterDuration [OF d0 si] sp by (simp add: afterCreate_def)
    with r AwaitCreate rj show ?thesis
      by (auto split: AwaitResult.splits)
  next
    case (AwaitDuration slot c cn dur)
    with ok have si: "sourceIndex ?s0 = Suc c"
      by (simp add: taskOK_sourceIndex)
    from r AwaitDuration obtain d' where "s1 = afterDuration slot c cn d' ?s0"
      by (auto split: DurationPromise.splits option.splits)
    with durationForCurrent_afterDuration [OF d0 si] show ?thesis by simp
  qed
qed

lemma durationForCurrent_handle:
  assumes inv: "serialInv s" and tr: "timersTracked s" and d: "durationForCurrent s"
  shows "durationForCurrent (handle ev s)"
proof -
  have same: "durationForCurrent s'"
    if "timers s' = timers s" and "sourceIndex s' = sourceIndex s" for s'
    using _ that(2) d by (rule durationForCurrent_sub) (simp add: durationPending_same [OF that(1)])
  have upd: "durationForCurrent (update u)" if "safe s u" for u
    using that tr by (intro durationForCurrent_update) (simp add: safe_def)
  show ?thesis
  proof (cases ev)
    case Switch
    with upd [OF safe_refl] show ?thesis by simp
  next
    case (EngineCreated r)
    then show ?thesis by (simp add: same)
  next
    case (EngineFailed r)
    then show ?thesis by (simp add: same)
  next
    case (Resume k)
    show ?thesis
    proof (cases "k < length (tasks s)")
      case False
      with d Resume show ?thesis by simp
    next
      case True
      with inv obtain t where t: "tasks s = [t]" and k: "k = 0"
        by (auto simp: serialInv_def split: list.splits)
      show ?thesis
      proof (cases "resumeTask t (s\<lparr>tasks := []\<rparr>)")
        case None
        with d t k Resume show ?thesis by simp
      next
        case (Some s1)
        from durationForCurrent_resumeTask [OF inv t d Some] show ?thesis
          using t k Some Resume by simp
      qed
    qed
  next
    case (TimerFires tid)
    show ?thesis
    proof (cases "find (\<lambda>x. timer_id x = tid) (timers s)")
      case None
      with d TimerFires show ?thesis by simp
    next
      case (Some tm)
      let ?u = "clearTimeout tid s"
      have du: "durationForCurrent ?u"
        using durationPending_clearTimeout_sub _ d by (rule durationForCurrent_sub) simp
      have "durationForCurrent (fireTimer tm ?u)"
      proof (cases "timer_action tm")
        case (DurationTimer c)
        have 1: "durationForCurrent (update ?u)"
          by (rule upd) (rule safe_clearTimeout)
        have "durationForCurrent (setTimeout (CloseTimer x) 1000 (update ?u))" for x
          using _ _ 1 by (rule durationForCurrent_sub) (simp_all add: durationPending_setTimeout)
        with 1 DurationTimer show ?thesis
          by (simp add: fireTimer_def Let_def)
      next
        case (CloseTimer close)
        have "durationForCurrent (closeNode cn ?u)" for cn
          using _ _ du by (rule durationForCurrent_sub) simp_all
        with du CloseTimer show ?thesis
          by (simp add: fireTimer_def split: option.splits)
      next
        case (NodeCloseTimer n)
        have "durationForCurrent (?u\<lparr>closeCalls := x\<rparr>)" for x
          using _ _ du by (rule durationForCurrent_sub) (simp_all add: durationPending_def)
        with NodeCloseTimer show ?thesis by (simp add: fireTimer_def)
      next
        case (SwitchTimer pin)
        have "durationForCurrent (?u\<lparr>switchCalls := x\<rparr>)" for x
          using _ _ du by (rule durationForCurrent_sub) (simp_all add: durationPending_def)
        with SwitchTimer show ?thesis by (simp add: fireTimer_def)
      qed
      with TimerFires Some show ?thesis by simp
    qed
  next
    case (Eof r)
    have "durationForCurrent (update (closeNode cn s))" for cn
      by (rule upd) (rule safe_closeNode)
    with d Eof show ?thesis by (simp split: option.splits)
  next
    case (ConnectionStatusChange r)
    have "durationForCurrent (update (closeNode cn s))" for cn
      by (rule upd) (rule safe_closeNode)
    with d ConnectionStatusChange show ?thesis by (simp split: option.splits)
  next
    case (Disconnect proto port key name)
    have 1: "durationForCurrent (update s)"
      by (rule upd) simp
    have "durationForCurrent (detach proto port k (update s))" for k
      using _ _ 1 by (rule durationForCurrent_sub) (simp_all add: durationPending_def)
    with 1 d have "durationForCurrent (runDisconnectCb proto port cb name s)" for cb
      by (cases cb) (simp_all add: Let_def)
    with d Disconnect show ?thesis by (simp split: option.splits)
  next
    case (NodeClosed r)
    with d show ?thesis by (simp add: same split: option.splits)
  next
    case (Streams k streams)
    have "durationForCurrent (snd (sourceSelector sel streams s))" for sel
      using _ _ d by (rule durationForCurrent_sub) simp_all
    with d Streams show ?thesis by simp
  next
    case (Mp4Info r d')
    with d show ?thesis by (simp add: same split: option.splits)
  next
    case ListenerCreated
    then show ?thesis by (simp add: same)
  next
    case ListenerFailed
    then show ?thesis by (simp add: same listenerFailed_def)
  qed
qed

lemma runSerial_duration:
  assumes "serialInv s" and "timersTracked s" and "durationForCurrent s"
      and "runSerial evs s = Some s'"
  shows "durationForCurrent s'"
  using assms
proof (induction evs arbitrary: s)
  case Nil
  then show ?case by simp
next
  case (Cons ev evs)
  from Cons.prems(4) have g: "\<not> (\<not> exited s \<and> callsUpdate ev s \<and> tasks s \<noteq> [])"
    and r: "runSerial evs (step ev s) = Some s'"
    by (simp_all split: if_splits)
  have 1: "serialInv (step ev s)"
    using runSerial_ok [OF Cons.prems(1), of "[ev]" "step ev s"] g by simp
  have 2: "timersTracked (step ev s)"
    using safe_step [of s ev] Cons.prems(2) by (simp add: safe_def)
  have 3: "durationForCurrent (step ev s)"
    using durationForCurrent_handle [OF Cons.prems(1-3), of ev] Cons.prems(3)
    by (simp add: step_def)
  from Cons.IH [OF 1 2 3 r] show ?case .
qed

lemma durationForCurrent_create: "durationForCurrent (Playlist_create pl td)"
  by (simp add: durationForCurrent_def durationPending_def Playlist_create_def Playlist_new_def)

text \<open>
  C9, as the claim states it, fails when invocations of \<^verbatim>\<open>update()\<close> overlap. A file item of
  5000 ms and two more files; \<^verbatim>\<open>start()\<close> and at once \<^verbatim>\<open>switch()\<close>. The invocation for item 0
  resumes after the advance to item 1 and sets the timer for the duration of item 0; nothing
  cancels it. With item 1 current and no invocation suspended, that timer is pending, and when
  it fires \<^verbatim>\<open>sourceIndex\<close> moves from 2 to 3.
\<close>

theorem late_duration_timer_counterexample:
  "sourceIndex lateTimerArmed = 2
   \<and> idxOf lateTimerArmed (playing_current lateTimerArmed) = Some 1
   \<and> tasks lateTimerArmed = []
   \<and> timers lateTimerArmed
       = [\<lparr>timer_id = 0, timer_delay = 4700, timer_action = DurationTimer 0\<rparr>]
   \<and> timeouts lateTimerArmed = [0]
   \<and> sourceIndex (step (TimerFires 0) lateTimerArmed) = 3
   \<and> \<not> exited (step (TimerFires 0) lateTimerArmed)
   \<and> map_option sourceIndex
       (runSerial [Switch, Switch, EngineCreated 0, Resume 0, EngineCreated 1, Resume 0, Resume 0]
          (Playlist_create [ts5000, tsFile, tsFile] None)) = None"
  by (simp add: model_defs lateTimerArmed_def ts5000_def tsFile_def idxOf_def)

text \<open>
  C9, amended. In every state \<open>s\<close> that the controller can reach, by any events in any order,
  from what \<^verbatim>\<open>Playlist.create\<close> returns: when \<^verbatim>\<open>update()\<close> is called in \<open>s\<close>, or in \<open>s\<close> after
  what a handler does before it calls \<^verbatim>\<open>update()\<close> (its \<^verbatim>\<open>closeNode()\<close>, or the removal of
  the timer that fires), the loop over \<^verbatim>\<open>this.timeouts\<close> leaves no duration timer pending, and
  only then is \<^verbatim>\<open>sourceIndex\<close> advanced. When an event advances \<^verbatim>\<open>sourceIndex\<close>, a duration
  timer that was pending before the event is pending in no state after it, whatever happens
  later, so it cannot fire. And in a state reached by a run in which the invocations of
  \<^verbatim>\<open>update()\<close> do not overlap, every pending duration timer is the one of the item advanced
  to last: the timer set by the invocation with \<^verbatim>\<open>currentSource = c\<close> is pending only while
  \<^verbatim>\<open>sourceIndex\<close> is \<open>c + 1\<close>, so no timer of an outgoing item is left to fire.
\<close>

theorem duration_timers_cancelled_before_advance:
  "durationPending (clearTimeouts (timeouts (run evs (Playlist_create pl td)))
                     (run evs (Playlist_create pl td))) = []
   \<and> durationPending
        (clearTimeouts (timeouts (closeNode cn (run evs (Playlist_create pl td))))
           (closeNode cn (run evs (Playlist_create pl td)))) = []
   \<and> durationPending
        (clearTimeouts (timeouts (clearTimeout k (run evs (Playlist_create pl td))))
           (clearTimeout k (run evs (Playlist_create pl td)))) = []
   \<and> (sourceIndex (step ev (run evs (Playlist_create pl td)))
          \<noteq> sourceIndex (run evs (Playlist_create pl td))
        \<and> t \<in> set (durationPending (run evs (Playlist_create pl td)))
      \<longrightarrow> timer_id t \<notin> timerIds (run evs' (step ev (run evs (Playlist_create pl td)))))
   \<and> (runSerial evs (Playlist_create pl td) = Some s
        \<and> u \<in> set (durationPending s) \<and> timer_action u = DurationTimer c
      \<longrightarrow> sourceIndex s = Suc c)"
proof -
  let ?s = "run evs (Playlist_create pl td)"
  have tr: "timersTracked ?s" by (rule timersTracked_run)
  have tc: "timersTracked (closeNode cn ?s)"
    using tr safe_closeNode [of ?s cn] by (simp add: safe_def)
  have tk: "timersTracked (clearTimeout k ?s)"
    using tr safe_clearTimeout [of ?s k] by (simp add: safe_def)
  have gone: "timer_id t \<notin> timerIds (run evs' (step ev ?s))"
    if adv: "sourceIndex (step ev ?s) \<noteq> sourceIndex ?s" and t: "t \<in> set (durationPending ?s)"
  proof -
    from adv have st: "step ev ?s = handle ev ?s"
      by (auto simp: step_def split: if_splits)
    from handle_clears [OF tr _ t] adv have 1: "timer_id t \<notin> timerIds (step ev ?s)"
      unfolding st by simp
    from tr t have "timer_id t < nextTimer ?s"
      by (auto simp: timersTracked_def durationPending_def)
    moreover have "later ?s (step ev ?s)"
      using safe_step [of ?s ev] by (simp add: safe_def)
    ultimately have 2: "timer_id t < nextTimer (step ev ?s)"
      by (simp add: later_def)
    have "later (step ev ?s) (run evs' (step ev ?s))"
      using safe_run [of "step ev ?s" evs'] by (simp add: safe_def)
    from gone_stays_gone [OF this 2 1] show ?thesis .
  qed
  have serial: "sourceIndex s = Suc c"
    if r: "runSerial evs (Playlist_create pl td) = Some s"
      and u: "u \<in> set (durationPending s)" and a: "timer_action u = DurationTimer c"
  proof -
    have "durationForCurrent s"
      by (rule runSerial_duration
            [OF serialInv_create timersTracked_create durationForCurrent_create r])
    from durationForCurrentD [OF this u a] show ?thesis .
  qed
  show ?thesis
  proof (intro conjI impI)
    show "durationPending (clearTimeouts (timeouts ?s) ?s) = []"
      by (rule cleared_none_pending [OF tr])
    show "durationPending (clearTimeouts (timeouts (closeNode cn ?s)) (closeNode cn ?s)) = []"
      by (rule cleared_none_pending [OF tc])
    show "durationPending (clearTimeouts (timeouts (clearTimeout k ?s)) (clearTimeout k ?s)) = []"
      by (rule cleared_none_pending [OF tk])
  next
    assume "sourceIndex (step ev ?s) \<noteq> sourceIndex ?s \<and> t \<in> set (durationPending ?s)"
    then show "timer_id t \<notin> timerIds (run evs' (step ev ?s))"
      using gone by blast
  next
    assume "runSerial evs (Playlist_create pl td) = Some s
            \<and> u \<in> set (durationPending s) \<and> timer_action u = DurationTimer c"
    then show "sourceIndex s = Suc c"
      using serial by blast
  qed
qed

theorem duration_timers_cancelled_before_advance_witness:
  "sourceIndex shortFileFirst = 1
   \<and> sourceIndex (step Switch shortFileFirst) = 2
   \<and> \<not> exited (step Switch shortFileFirst)
   \<and> durationPending shortFileFirst
       = [\<lparr>timer_id = 0, timer_delay = - 200, timer_action = DurationTimer 0\<rparr>]
   \<and> 0 \<notin> timerIds (run [TimerFires 0] (step Switch shortFileFirst))
   \<and> runSerial [Switch, EngineCreated 0, Resume 0] (Playlist_create [ts100, tsFile] None)
       = Some shortFileFirst"
proof -
  let ?evs = "[Switch, EngineCreated 0, Resume 0]"
  let ?t = "\<lparr>timer_id = 0, timer_delay = - 200, timer_action = DurationTimer 0\<rparr>"
  have s: "run ?evs (Playlist_create [ts100, tsFile] None) = shortFileFirst"
    by (simp only: shortFileFirst_def)
  have a: "sourceIndex shortFileFirst = 1" and a': "sourceIndex (step Switch shortFileFirst) = 2"
    and a'': "\<not> exited (step Switch shortFileFirst)"
    by (simp_all add: model_defs shortFileFirst_def ts100_def tsFile_def)
  have b: "durationPending shortFileFirst = [?t]"
    by (simp add: model_defs shortFileFirst_def ts100_def tsFile_def durationPending_def)
  have "runSerial ?evs (Playlist_create [ts100, tsFile] None)
          = Some (run ?evs (Playlist_create [ts100, tsFile] None))"
    by (simp add: model_defs ts100_def tsFile_def)
  then have r: "runSerial ?evs (Playlist_create [ts100, tsFile] None) = Some shortFileFirst"
    by (simp only: s)
  note th = duration_timers_cancelled_before_advance
      [where evs = ?evs and pl = "[ts100, tsFile]" and td = None and ev = Switch and t = ?t
         and evs' = "[TimerFires 0]" and s = shortFileFirst and u = ?t and c = 0, unfolded s]
  have "sourceIndex (step Switch shortFileFirst) \<noteq> sourceIndex shortFileFirst
        \<and> ?t \<in> set (durationPending shortFileFirst)"
    by (simp add: a a' b)
  from mp [OF conjunct1 [OF conjunct2 [OF conjunct2 [OF conjunct2 [OF th]]]] this]
  have g: "0 \<notin> timerIds (run [TimerFires 0] (step Switch shortFileFirst))"
    by simp
  have "runSerial ?evs (Playlist_create [ts100, tsFile] None) = Some shortFileFirst
        \<and> ?t \<in> set (durationPending shortFileFirst) \<and> timer_action ?t = DurationTimer 0"
    by (intro conjI, rule r) (simp_all add: b)
  from mp [OF conjunct2 [OF conjunct2 [OF conjunct2 [OF conjunct2 [OF th]]]] this]
  have h: "sourceIndex shortFileFirst = 1"
    by simp
  from h a' a'' b g r show ?thesis
    by (intro conjI)
qed

end
